theory Spec2Isabelle
  imports Main "HOL-Library.Char_ord" "HOL-Library.Sublist"
begin

section \<open>JavaScript values\<close>

text \<open>
  The program is \<^verbatim>\<open>src/js/main.js\<close>: the object \<^verbatim>\<open>PostRenderer\<close>, which fetches
  \<^verbatim>\<open>data/posts.json\<close>, renders every record into the element \<^verbatim>\<open>#posts-container\<close> and
  offers two filters over the rendered elements.

  The records come out of \<^verbatim>\<open>response.json()\<close>, so every value the program handles is a
  JSON value or \<^verbatim>\<open>undefined\<close> (an absent property). Strings are \<open>char list\<close>: a
  character of ASCII is itself, any other character is the sequence of its UTF-8 bytes.
  Numbers are integers (the program only tests a number for zero and converts it to text).
  In \<open>Obj\<close> the properties are kept in the order of the JSON text.
\<close>

datatype jsval =
    Undefined
  | Null
  | Bool bool
  | Num int
  | Str string
  | Arr "jsval list"
  | Obj "(string \<times> jsval) list"

text \<open>What a JavaScript operation can throw in this program.\<close>

datatype error =
    TypeError
  | SyntaxError
  | HttpError nat

text \<open>\<^verbatim>\<open>!x\<close> is true exactly for the falsy values.\<close>

fun truthy :: "jsval \<Rightarrow> bool" where
  "truthy Undefined = False"
| "truthy Null = False"
| "truthy (Bool b) = b"
| "truthy (Num n) = (n \<noteq> 0)"
| "truthy (Str s) = (s \<noteq> [])"
| "truthy (Arr xs) = True"
| "truthy (Obj kvs) = True"

text \<open>\<^verbatim>\<open>a || b\<close>: the first operand when it is truthy, the second otherwise.\<close>

definition js_or :: "jsval \<Rightarrow> jsval \<Rightarrow> jsval" where
  "js_or a b = (if truthy a then a else b)"

section \<open>The host\<close>

text \<open>
  Three things the program asks of the JavaScript host are not fixed by the program text and
  are parameters of the model:
  \<^item> \<open>Date_parse\<close>: \<^verbatim>\<open>Date.parse\<close>, the time value (milliseconds since the epoch) a
    string denotes, \<open>None\<close> standing for \<^verbatim>\<open>NaN\<close>; outside the ISO format the recognised
    strings are implementation-defined;
  \<^item> \<open>Date_format\<close>: what \<^verbatim>\<open>toLocaleDateString('en-US', {year: 'numeric', month: 'long',
    day: 'numeric'})\<close> returns for a valid time value, in the time zone of the host;
  \<^item> \<open>Number_toString\<close>: the text of a number.
\<close>

record platform =
  Date_parse :: "string \<Rightarrow> int option"
  Date_format :: "int \<Rightarrow> string"
  Number_toString :: "int \<Rightarrow> string"

text \<open>
  \<^verbatim>\<open>ToString\<close> on a JSON value, as template interpolation, \<^verbatim>\<open>setAttribute\<close> and the
  \<^verbatim>\<open>Date\<close> constructor apply it. An array is joined with commas, \<^verbatim>\<open>null\<close> and
  \<^verbatim>\<open>undefined\<close> elements giving the empty text. An object gives \<^verbatim>\<open>[object Object]\<close>
  through the inherited \<^verbatim>\<open>toString\<close>; when the JSON text gave the object a property
  \<^verbatim>\<open>toString\<close> of its own, that property is not callable and, \<^verbatim>\<open>valueOf\<close> returning no
  primitive either, the conversion throws a \<^verbatim>\<open>TypeError\<close>.
\<close>

fun ToString :: "platform \<Rightarrow> jsval \<Rightarrow> error + string"
  and join_elements :: "platform \<Rightarrow> jsval list \<Rightarrow> error + string" where
  "ToString P Undefined = Inr ''undefined''"
| "ToString P Null = Inr ''null''"
| "ToString P (Bool b) = Inr (if b then ''true'' else ''false'')"
| "ToString P (Num n) = Inr (Number_toString P n)"
| "ToString P (Str s) = Inr s"
| "ToString P (Arr xs) = join_elements P xs"
| "ToString P (Obj kvs) =
     (if ''toString'' \<in> fst ` set kvs then Inl TypeError else Inr ''[object Object]'')"
| "join_elements P [] = Inr []"
| "join_elements P (x # xs) =
     (case (if x = Undefined \<or> x = Null then Inr [] else ToString P x) of
        Inl e \<Rightarrow> Inl e
      | Inr s \<Rightarrow>
          (if xs = [] then Inr s
           else (case join_elements P xs of
                   Inl e \<Rightarrow> Inl e
                 | Inr r \<Rightarrow> Inr (s @ '','' @ r))))"

section \<open>The Formatter: \<^verbatim>\<open>formatDate\<close>\<close>

text \<open>
  \<^verbatim>\<open>new Date(value)\<close>: a string is parsed, a number is the time value itself when it is in the
  range of time values (at most \<open>8.64 * 10^15\<close> in absolute value), an array or an object is
  converted to a string first, and that conversion is the one step that can throw. The
  result is the time value of the date, \<open>None\<close> for an invalid date.
\<close>

definition TimeClip :: "int \<Rightarrow> int option" where
  "TimeClip t = (if \<bar>t\<bar> \<le> 8640000000000000 then Some t else None)"

fun new_Date :: "platform \<Rightarrow> jsval \<Rightarrow> error + int option" where
  "new_Date P (Str s) = Inr (Date_parse P s)"
| "new_Date P (Num n) = Inr (TimeClip n)"
| "new_Date P (Bool b) = Inr (Some (if b then 1 else 0))"
| "new_Date P Null = Inr (Some 0)"
| "new_Date P Undefined = Inr None"
| "new_Date P v =
     (case ToString P v of Inl e \<Rightarrow> Inl e | Inr s \<Rightarrow> Inr (Date_parse P s))"

text \<open>
  \<^verbatim>\<open>toLocaleDateString\<close> with a fixed, valid locale and valid options does not throw; for an
  invalid date it returns the text \<^verbatim>\<open>Invalid Date\<close>.
\<close>

definition toLocaleDateString :: "platform \<Rightarrow> int option \<Rightarrow> string" where
  "toLocaleDateString P date =
     (case date of None \<Rightarrow> ''Invalid Date'' | Some t \<Rightarrow> Date_format P t)"

text \<open>
  \<^verbatim>\<open>
  formatDate(dateString) {
    if (!dateString) return '';
    try {
      const date = new Date(dateString);
      return date.toLocaleDateString('en-US', { year: 'numeric', month: 'long', day: 'numeric' });
    } catch (error) {
      console.error('Error formatting date:', error);
      return dateString;
    }
  }
  \<close>
  The result is a JavaScript value: in the \<^verbatim>\<open>catch\<close> branch it is the argument itself.
  Writing to the console changes nothing the model holds.
\<close>

definition formatDate :: "platform \<Rightarrow> jsval \<Rightarrow> jsval" where
  "formatDate P dateString =
     (if \<not> truthy dateString then Str []
      else (case new_Date P dateString of
              Inl error \<Rightarrow> dateString
            | Inr date \<Rightarrow> Str (toLocaleDateString P date)))"

subsection \<open>A reference host\<close>

text \<open>
  A concrete host, for evaluating the program on small inputs: it prints integers in
  decimal (as JavaScript does below \<open>10^21\<close>), reads the date-only ISO form
  \<^verbatim>\<open>YYYY-MM-DD\<close> of a calendar date (which denotes midnight UTC) and no other string
  (the engines in use read more: the ISO forms with a time, and forms of their own), and
  lives at a fixed offset of \<open>tz\<close> minutes from UTC. Dates are those of the proleptic
  Gregorian calendar; the long \<^verbatim>\<open>en-US\<close> form is \<^verbatim>\<open>Month D, Y\<close> with the year of the era.
\<close>

definition digit_char :: "nat \<Rightarrow> char" where
  "digit_char n = char_of (48 + n)"

fun show_nat :: "nat \<Rightarrow> string" where
  "show_nat n = (if n < 10 then [digit_char n] else show_nat (n div 10) @ [digit_char (n mod 10)])"

declare show_nat.simps [simp del]

definition show_int :: "int \<Rightarrow> string" where
  "show_int i = (if i < 0 then CHR ''-'' # show_nat (nat (- i)) else show_nat (nat i))"

definition is_digit :: "char \<Rightarrow> bool" where
  "is_digit c = (CHR ''0'' \<le> c \<and> c \<le> CHR ''9'')"

definition digits_value :: "string \<Rightarrow> int option" where
  "digits_value ds =
     (if ds \<noteq> [] \<and> list_all is_digit ds
      then Some (foldl (\<lambda>n c. 10 * n + (of_char c - 48)) 0 ds)
      else None)"

definition days_from_civil :: "int \<Rightarrow> int \<Rightarrow> int \<Rightarrow> int" where
  "days_from_civil y m d =
     (let y' = (if m \<le> 2 then y - 1 else y);
          era = y' div 400;
          yoe = y' - era * 400;
          doy = (153 * (if m > 2 then m - 3 else m + 9) + 2) div 5 + d - 1;
          doe = yoe * 365 + yoe div 4 - yoe div 100 + doy
      in era * 146097 + doe - 719468)"

definition civil_from_days :: "int \<Rightarrow> int \<times> int \<times> int" where
  "civil_from_days z =
     (let z' = z + 719468;
          era = z' div 146097;
          doe = z' - era * 146097;
          yoe = (doe - doe div 1460 + doe div 36524 - doe div 146096) div 365;
          doy = doe - (365 * yoe + yoe div 4 - yoe div 100);
          mp = (5 * doy + 2) div 153;
          d = doy - (153 * mp + 2) div 5 + 1;
          m = (if mp < 10 then mp + 3 else mp - 9);
          y = yoe + era * 400
      in (if m \<le> 2 then y + 1 else y, m, d))"

definition days_in_month :: "int \<Rightarrow> int \<Rightarrow> int" where
  "days_in_month y m =
     (if m = 2 then (if y mod 4 = 0 \<and> (y mod 100 \<noteq> 0 \<or> y mod 400 = 0) then 29 else 28)
      else if m \<in> {4, 6, 9, 11} then 30 else 31)"

definition iso_date_only :: "string \<Rightarrow> int option" where
  "iso_date_only s =
     (if length s = 10 \<and> s ! 4 = CHR ''-'' \<and> s ! 7 = CHR ''-'' then
        (case (digits_value (take 4 s), digits_value (take 2 (drop 5 s)), digits_value (drop 8 s)) of
           (Some y, Some m, Some d) \<Rightarrow>
             (if 1 \<le> m \<and> m \<le> 12 \<and> 1 \<le> d \<and> d \<le> days_in_month y m
              then Some (days_from_civil y m d * 86400000) else None)
         | _ \<Rightarrow> None)
      else None)"

definition month_name :: "int \<Rightarrow> string" where
  "month_name m =
     (if 1 \<le> m \<and> m \<le> 12
      then [''January'', ''February'', ''March'', ''April'', ''May'', ''June'', ''July'',
            ''August'', ''September'', ''October'', ''November'', ''December''] ! nat (m - 1)
      else [])"

definition en_US_long :: "int \<Rightarrow> string" where
  "en_US_long day =
     (case civil_from_days day of
        (y, m, d) \<Rightarrow>
          month_name m @ '' '' @ show_int d @ '', '' @ show_int (if y \<le> 0 then 1 - y else y))"

definition host :: "int \<Rightarrow> platform" where
  "host tz =
     \<lparr> Date_parse = iso_date_only,
       Date_format = (\<lambda>t. en_US_long ((t + tz * 60000) div 86400000)),
       Number_toString = show_int \<rparr>"

section \<open>The document\<close>

text \<open>
  An element has a tag name, attributes, the \<^verbatim>\<open>display\<close> property of its inline style
  (empty until the program sets it) and child nodes; a text node has its data.
\<close>

type_synonym attrs = "(string \<times> string) list"

datatype node =
    Text string
  | Element string attrs string "node list"

subsection \<open>Assigning to \<^verbatim>\<open>innerHTML\<close>: the tokenizer\<close>

text \<open>
  The program builds markup as text and hands it to the browser through \<^verbatim>\<open>innerHTML\<close>.
  The model follows the HTML standard on the markup this program writes: newlines are
  normalised, the tokenizer runs through the data, tag, attribute and character reference
  states, and the tree builder keeps a stack of open elements.

  Where the model is narrower than the standard:
  \<^item> of the character references it knows the five that the Sanitizer writes, each with its
    semicolon; any other \<open>&\<close> stays text;
  \<^item> \<open><!\<close> and \<open><?\<close> open a comment that the first \<open>>\<close> closes, and a comment leaves no
    node;
  \<^item> the tree builder nests elements as the tags say and has none of the repairs of the
    standard for tags that do not match (implied end tags, the adoption agency, foster
    parenting), nor the special content models of \<^verbatim>\<open>script\<close>, \<^verbatim>\<open>style\<close>, \<^verbatim>\<open>textarea\<close>
    and \<^verbatim>\<open>title\<close>.
\<close>

definition CR :: char where "CR = CHR 0x0D"
definition LF :: char where "LF = CHR 0x0A"
definition NUL :: char where "NUL = CHR 0x00"

text \<open>A CR LF pair and a lone CR become one LF; the flag says that the previous character was a CR.\<close>

fun normalize_newlines :: "bool \<Rightarrow> string \<Rightarrow> string" where
  "normalize_newlines after_cr [] = []"
| "normalize_newlines after_cr (c # cs) =
     (if c = CR then LF # normalize_newlines True cs
      else if c = LF \<and> after_cr then normalize_newlines False cs
      else c # normalize_newlines False cs)"

definition is_space :: "char \<Rightarrow> bool" where
  "is_space c = (c \<in> set [CHR 0x09, CHR 0x0A, CHR 0x0C, CHR 0x0D, CHR '' ''])"

definition is_upper :: "char \<Rightarrow> bool" where
  "is_upper c = (CHR ''A'' \<le> c \<and> c \<le> CHR ''Z'')"

definition is_lower :: "char \<Rightarrow> bool" where
  "is_lower c = (CHR ''a'' \<le> c \<and> c \<le> CHR ''z'')"

definition to_lower :: "char \<Rightarrow> char" where
  "to_lower c = (if is_upper c then char_of (of_char c + (32::nat)) else c)"

text \<open>
  In a tag name, an attribute name and an attribute value the tokenizer writes U+FFFD for a
  NUL; a name is lower-cased on the letters of ASCII.
\<close>

definition replacement :: string where
  "replacement = [CHR 0xEF, CHR 0xBF, CHR 0xBD]"

definition name_chars :: "char \<Rightarrow> string" where
  "name_chars c = (if c = NUL then replacement else [to_lower c])"

definition value_chars :: "char \<Rightarrow> string" where
  "value_chars c = (if c = NUL then replacement else [c])"

datatype token =
    Character char
  | StartTag string attrs bool
  | EndTag string

text \<open>The tag being read: whether it is an end tag, its name, its attributes so far.\<close>

type_synonym tag = "bool \<times> string \<times> attrs"

datatype tstate =
    Data
  | CharRefData string
  | TagOpen
  | EndTagOpen
  | TagName tag
  | BeforeAttrName tag
  | AttrName tag string
  | AfterAttrName tag string
  | BeforeAttrValue tag string
  | AttrValue "char option" tag string string
  | CharRefAttr "char option" tag string string string
  | AfterAttrValue tag
  | SelfClosing tag
  | BogusComment

definition char_refs :: "(string \<times> char) list" where
  "char_refs =
     [(''amp'', CHR ''&''), (''lt'', CHR ''<''), (''gt'', CHR ''>''),
      (''quot'', CHR 0x22), (''#039'', CHR 0x27)]"

definition decode_ref :: "string \<Rightarrow> string" where
  "decode_ref r = (case map_of char_refs r of Some c \<Rightarrow> [c] | None \<Rightarrow> CHR ''&'' # r @ '';'')"

definition ref_char :: "char \<Rightarrow> bool" where
  "ref_char c = (is_lower c \<or> is_upper c \<or> is_digit c \<or> c = CHR ''#'')"

text \<open>An attribute whose name the tag already has is dropped.\<close>

fun add_attr :: "tag \<Rightarrow> string \<Rightarrow> string \<Rightarrow> tag" where
  "add_attr (closing, name, as) an av =
     (closing, name, if an \<in> fst ` set as then as else as @ [(an, av)])"

text \<open>An end tag carries no attributes.\<close>

fun emit_tag :: "tag \<Rightarrow> bool \<Rightarrow> token" where
  "emit_tag (closing, name, as) self_closing =
     (if closing then EndTag name else StartTag name as self_closing)"

definition data_step :: "char \<Rightarrow> tstate \<times> token list" where
  "data_step c =
     (if c = CHR ''&'' then (CharRefData [], [])
      else if c = CHR ''<'' then (TagOpen, [])
      else (Data, [Character c]))"

definition before_attr_name_step :: "tag \<Rightarrow> char \<Rightarrow> tstate \<times> token list" where
  "before_attr_name_step tg c =
     (if is_space c then (BeforeAttrName tg, [])
      else if c = CHR ''/'' then (SelfClosing tg, [])
      else if c = CHR ''>'' then (Data, [emit_tag tg False])
      else (AttrName tg (name_chars c), []))"

definition after_attr_name_step :: "tag \<Rightarrow> string \<Rightarrow> char \<Rightarrow> tstate \<times> token list" where
  "after_attr_name_step tg an c =
     (if is_space c then (AfterAttrName tg an, [])
      else if c = CHR ''/'' then (SelfClosing (add_attr tg an []), [])
      else if c = CHR ''='' then (BeforeAttrValue tg an, [])
      else if c = CHR ''>'' then (Data, [emit_tag (add_attr tg an []) False])
      else (AttrName (add_attr tg an []) (name_chars c), []))"

definition attr_value_step ::
  "char option \<Rightarrow> tag \<Rightarrow> string \<Rightarrow> string \<Rightarrow> char \<Rightarrow> tstate \<times> token list" where
  "attr_value_step quote tg an av c =
     (case quote of
        Some q \<Rightarrow>
          (if c = q then (AfterAttrValue (add_attr tg an av), [])
           else if c = CHR ''&'' then (CharRefAttr quote tg an av [], [])
           else (AttrValue quote tg an (av @ value_chars c), []))
      | None \<Rightarrow>
          (if is_space c then (BeforeAttrName (add_attr tg an av), [])
           else if c = CHR ''&'' then (CharRefAttr quote tg an av [], [])
           else if c = CHR ''>'' then (Data, [emit_tag (add_attr tg an av) False])
           else (AttrValue quote tg an (av @ value_chars c), [])))"

fun tstep :: "tstate \<Rightarrow> char \<Rightarrow> tstate \<times> token list" where
  "tstep Data c = data_step c"
| "tstep (CharRefData r) c =
     (if c = CHR '';'' then (Data, map Character (decode_ref r))
      else if ref_char c then (CharRefData (r @ [c]), [])
      else (case data_step c of (st, out) \<Rightarrow> (st, map Character (CHR ''&'' # r) @ out)))"
| "tstep TagOpen c =
     (if c = CHR ''/'' then (EndTagOpen, [])
      else if is_lower c \<or> is_upper c then (TagName (False, [to_lower c], []), [])
      else if c = CHR ''!'' \<or> c = CHR ''?'' then (BogusComment, [])
      else (case data_step c of (st, out) \<Rightarrow> (st, Character CHR ''<'' # out)))"
| "tstep EndTagOpen c =
     (if is_lower c \<or> is_upper c then (TagName (True, [to_lower c], []), [])
      else if c = CHR ''>'' then (Data, [])
      else (BogusComment, []))"
| "tstep (TagName (closing, name, as)) c =
     (if is_space c then (BeforeAttrName (closing, name, as), [])
      else if c = CHR ''/'' then (SelfClosing (closing, name, as), [])
      else if c = CHR ''>'' then (Data, [emit_tag (closing, name, as) False])
      else (TagName (closing, name @ name_chars c, as), []))"
| "tstep (BeforeAttrName tg) c = before_attr_name_step tg c"
| "tstep (AttrName tg an) c =
     (if is_space c \<or> c = CHR ''/'' \<or> c = CHR ''>'' then after_attr_name_step tg an c
      else if c = CHR ''='' then (BeforeAttrValue tg an, [])
      else (AttrName tg (an @ name_chars c), []))"
| "tstep (AfterAttrName tg an) c = after_attr_name_step tg an c"
| "tstep (BeforeAttrValue tg an) c =
     (if is_space c then (BeforeAttrValue tg an, [])
      else if c = CHR 0x22 \<or> c = CHR 0x27 then (AttrValue (Some c) tg an [], [])
      else if c = CHR ''>'' then (Data, [emit_tag (add_attr tg an []) False])
      else attr_value_step None tg an [] c)"
| "tstep (AttrValue quote tg an av) c = attr_value_step quote tg an av c"
| "tstep (CharRefAttr quote tg an av r) c =
     (if c = CHR '';'' then (AttrValue quote tg an (av @ decode_ref r), [])
      else if ref_char c then (CharRefAttr quote tg an av (r @ [c]), [])
      else attr_value_step quote tg an (av @ CHR ''&'' # r) c)"
| "tstep (AfterAttrValue tg) c =
     (if is_space c then (BeforeAttrName tg, [])
      else if c = CHR ''/'' then (SelfClosing tg, [])
      else if c = CHR ''>'' then (Data, [emit_tag tg False])
      else before_attr_name_step tg c)"
| "tstep (SelfClosing tg) c =
     (if c = CHR ''>'' then (Data, [emit_tag tg True])
      else before_attr_name_step tg c)"
| "tstep BogusComment c =
     (if c = CHR ''>'' then (Data, []) else (BogusComment, []))"

text \<open>At the end of the input, pending text is emitted and an unfinished tag is dropped.\<close>

fun flush :: "tstate \<Rightarrow> token list" where
  "flush (CharRefData r) = map Character (CHR ''&'' # r)"
| "flush TagOpen = [Character CHR ''<'']"
| "flush EndTagOpen = [Character CHR ''<'', Character CHR ''/'']"
| "flush _ = []"

fun tokens_from :: "tstate \<Rightarrow> string \<Rightarrow> token list" where
  "tokens_from st [] = flush st"
| "tokens_from st (c # cs) =
     (case tstep st c of (st', out) \<Rightarrow> out @ tokens_from st' cs)"

subsection \<open>Assigning to \<^verbatim>\<open>innerHTML\<close>: the tree builder\<close>

text \<open>
  The stack of open elements: each frame is an element under construction, with the children
  it has so far; the last frame stands for the element whose \<^verbatim>\<open>innerHTML\<close> is assigned.
\<close>

type_synonym frame = "string \<times> attrs \<times> node list"

definition void_elements :: "string list" where
  "void_elements =
     [''area'', ''base'', ''br'', ''col'', ''embed'', ''hr'', ''img'', ''input'',
      ''link'', ''meta'', ''source'', ''track'', ''wbr'']"

text \<open>A character joins the text node before it, when there is one.\<close>

fun append_char :: "char \<Rightarrow> node list \<Rightarrow> node list" where
  "append_char c [] = [Text [c]]"
| "append_char c [Text s] = [Text (s @ [c])]"
| "append_char c [Element t a d kids] = [Element t a d kids, Text [c]]"
| "append_char c (n # m # ns) = n # append_char c (m # ns)"

fun add_child :: "node \<Rightarrow> frame list \<Rightarrow> frame list" where
  "add_child n [] = []"
| "add_child n ((t, a, kids) # fs) = (t, a, kids @ [n]) # fs"

fun insert_character :: "char \<Rightarrow> frame list \<Rightarrow> frame list" where
  "insert_character c [] = []"
| "insert_character c ((t, a, kids) # fs) =
     (if c = NUL then (t, a, kids) # fs else (t, a, append_char c kids) # fs)"

text \<open>An end tag closes the open elements down to the nearest one of its name.\<close>

fun close_until :: "string \<Rightarrow> frame list \<Rightarrow> frame list" where
  "close_until name ((t, a, kids) # (t', a', kids') # fs) =
     (if t = name then (t', a', kids' @ [Element t a [] kids]) # fs
      else close_until name ((t', a', kids' @ [Element t a [] kids]) # fs))"
| "close_until name fs = fs"

fun tree_step :: "frame list \<Rightarrow> token \<Rightarrow> frame list" where
  "tree_step fs (Character c) = insert_character c fs"
| "tree_step fs (StartTag name as self_closing) =
     (if name \<in> set void_elements then add_child (Element name as [] []) fs
      else (name, as, []) # fs)"
| "tree_step fs (EndTag name) =
     (if name \<in> set (map fst (butlast fs)) then close_until name fs else fs)"

fun finish :: "frame list \<Rightarrow> node list" where
  "finish [] = []"
| "finish [(t, a, kids)] = kids"
| "finish ((t, a, kids) # (t', a', kids') # fs) =
     finish ((t', a', kids' @ [Element t a [] kids]) # fs)"

definition parse_fragment :: "string \<Rightarrow> node list" where
  "parse_fragment markup =
     finish (foldl tree_step [([], [], [])] (tokens_from Data (normalize_newlines False markup)))"

subsection \<open>Reading the document\<close>

text \<open>The class names of an element: the words of its \<^verbatim>\<open>class\<close> attribute.\<close>

fun split_spaces :: "string \<Rightarrow> string \<Rightarrow> string list" where
  "split_spaces w [] = (if w = [] then [] else [w])"
| "split_spaces w (c # cs) =
     (if is_space c then (if w = [] then [] else [w]) @ split_spaces [] cs
      else split_spaces (w @ [c]) cs)"

fun classList :: "node \<Rightarrow> string list" where
  "classList (Text s) = []"
| "classList (Element t a d kids) =
     (case map_of a ''class'' of None \<Rightarrow> [] | Some v \<Rightarrow> split_spaces [] v)"

definition has_class :: "string \<Rightarrow> node \<Rightarrow> bool" where
  "has_class c n = (c \<in> set (classList n))"

text \<open>The nodes below a node and the nodes of a forest, in document order.\<close>

fun descendants :: "node \<Rightarrow> node list" where
  "descendants (Text s) = []"
| "descendants (Element t a d kids) = concat (map (\<lambda>k. k # descendants k) kids)"

definition nodes_of :: "node list \<Rightarrow> node list" where
  "nodes_of ns = concat (map (\<lambda>k. k # descendants k) ns)"

text \<open>\<^verbatim>\<open>querySelectorAll('.c')\<close> and \<^verbatim>\<open>querySelector('.c')\<close> on an element, and on the document.\<close>

definition querySelectorAll :: "string \<Rightarrow> node \<Rightarrow> node list" where
  "querySelectorAll c n = filter (has_class c) (descendants n)"

definition querySelector :: "string \<Rightarrow> node \<Rightarrow> node option" where
  "querySelector c n = (case querySelectorAll c n of [] \<Rightarrow> None | e # es \<Rightarrow> Some e)"

definition document_querySelectorAll :: "string \<Rightarrow> node list \<Rightarrow> node list" where
  "document_querySelectorAll c doc = filter (has_class c) (nodes_of doc)"

fun textContent :: "node \<Rightarrow> string" where
  "textContent (Text s) = s"
| "textContent (Element t a d kids) = concat (map textContent kids)"

fun style_display :: "node \<Rightarrow> string" where
  "style_display (Text s) = []"
| "style_display (Element t a d kids) = d"

section \<open>The Sanitizer: \<^verbatim>\<open>escapeHtml\<close>\<close>

text \<open>
  \<^verbatim>\<open>
  escapeHtml(text) {
    const map = { '&': '&amp;', '<': '&lt;', '>': '&gt;', '"': '&quot;', "'": '&#039;' };
    return text.replace(/[&<>"']/g, m => map[m]);
  }
  \<close>
  The object literal is an association list, the character class a predicate on characters.
  \<^verbatim>\<open>String.prototype.replace\<close> with a global pattern that matches single characters scans the
  text from the left: a character the pattern matches is replaced by what the replacer returns
  for it, any other character is copied. A lookup of a key that \<^verbatim>\<open>map\<close> does not hold would
  give \<^verbatim>\<open>undefined\<close>, which \<^verbatim>\<open>replace\<close> writes as the text \<^verbatim>\<open>undefined\<close>.
\<close>

definition map_entities :: "(char \<times> string) list" where
  "map_entities =
     [(CHR ''&'', ''&amp;''),
      (CHR ''<'', ''&lt;''),
      (CHR ''>'', ''&gt;''),
      (CHR 0x22, ''&quot;''),
      (CHR 0x27, ''&#039;'')]"

definition re_special :: "char \<Rightarrow> bool" where
  "re_special c = (c \<in> set [CHR ''&'', CHR ''<'', CHR ''>'', CHR 0x22, CHR 0x27])"

definition replacer :: "char \<Rightarrow> string" where
  "replacer m = (case map_of map_entities m of Some r \<Rightarrow> r | None \<Rightarrow> ''undefined'')"

fun String_replace :: "(char \<Rightarrow> bool) \<Rightarrow> (char \<Rightarrow> string) \<Rightarrow> string \<Rightarrow> string" where
  "String_replace re f [] = []"
| "String_replace re f (c # cs) =
     (if re c then f c @ String_replace re f cs else c # String_replace re f cs)"

text \<open>
  \<^verbatim>\<open>text.replace\<close> exists only on a string: on \<^verbatim>\<open>undefined\<close> and \<^verbatim>\<open>null\<close> the property
  read throws, on a number, a boolean, an array or an object from JSON the property is absent
  or not callable, and the call throws. Each of them is a \<^verbatim>\<open>TypeError\<close>.
\<close>

fun escapeHtml :: "jsval \<Rightarrow> error + string" where
  "escapeHtml (Str text) = Inr (String_replace re_special replacer text)"
| "escapeHtml _ = Inl TypeError"

text \<open>The Sanitizer as the specification words it: one character at a time.\<close>

definition sanitize_char :: "char \<Rightarrow> string" where
  "sanitize_char c =
     (if c = CHR ''&'' then ''&amp;''
      else if c = CHR ''<'' then ''&lt;''
      else if c = CHR ''>'' then ''&gt;''
      else if c = CHR 0x22 then ''&quot;''
      else if c = CHR 0x27 then ''&#039;''
      else [c])"

text \<open>What escaping a second time does to an escaped text: only \<open>&\<close> is rewritten.\<close>

definition amp_again :: "char \<Rightarrow> string" where
  "amp_again c = (if c = CHR ''&'' then ''&amp;'' else [c])"

section \<open>The Renderer\<close>

text \<open>
  Reading a property, for the names this program reads (\<^verbatim>\<open>id\<close>, \<^verbatim>\<open>image\<close>, \<^verbatim>\<open>title\<close>,
  \<^verbatim>\<open>tags\<close>, \<^verbatim>\<open>excerpt\<close>, \<^verbatim>\<open>description\<close>, \<^verbatim>\<open>date\<close>, \<^verbatim>\<open>author\<close>, \<^verbatim>\<open>url\<close>,
  \<^verbatim>\<open>length\<close>), none of which an object inherits: reading from \<^verbatim>\<open>undefined\<close> or
  \<^verbatim>\<open>null\<close> throws; an object gives the value the JSON text gave the name last, an array or a
  string its \<^verbatim>\<open>length\<close>; everything else is \<^verbatim>\<open>undefined\<close>.
\<close>

fun get_prop :: "jsval \<Rightarrow> string \<Rightarrow> error + jsval" where
  "get_prop Undefined name = Inl TypeError"
| "get_prop Null name = Inl TypeError"
| "get_prop (Obj kvs) name =
     Inr (case map_of (rev kvs) name of Some v \<Rightarrow> v | None \<Rightarrow> Undefined)"
| "get_prop (Arr xs) name =
     Inr (if name = ''length'' then Num (int (length xs)) else Undefined)"
| "get_prop (Str s) name =
     Inr (if name = ''length'' then Num (int (length s)) else Undefined)"
| "get_prop v name = Inr Undefined"

fun isArray :: "jsval \<Rightarrow> bool" where
  "isArray (Arr xs) = True"
| "isArray v = False"

text \<open>Sequencing of steps that may throw: the first error ends the computation.\<close>

definition and_then :: "error + 'a \<Rightarrow> ('a \<Rightarrow> error + 'b) \<Rightarrow> error + 'b" where
  "and_then m f = (case m of Inl e \<Rightarrow> Inl e | Inr x \<Rightarrow> f x)"

text \<open>
  \<^verbatim>\<open>
  let imageHTML = '';
  if (post.image) {
    imageHTML = `<img src="${this.escapeHtml(post.image)}" alt="${this.escapeHtml(post.title)}"
                 class="post-image">`;
  }
  \<close>
\<close>

definition imageHTML :: "jsval \<Rightarrow> error + string" where
  \<open>imageHTML post =
     and_then (get_prop post ''image'') (\<lambda>img.
       if truthy img then
         and_then (escapeHtml img) (\<lambda>src.
         and_then (get_prop post ''title'') (\<lambda>title.
         and_then (escapeHtml title) (\<lambda>alt.
           Inr (''<img src="'' @ src @ ''" alt="'' @ alt @ ''" class="post-image">''))))
       else Inr [])\<close>

text \<open>
  \<^verbatim>\<open>
  let tagsHTML = '';
  if (post.tags && Array.isArray(post.tags)) {
    tagsHTML = `
        <div class="post-tags">
          ${post.tags.map(tag => `<span class="tag">${this.escapeHtml(tag)}</span>`).join('')}
        </div>
      `;
  }
  \<close>
  \<open>map_tags\<close> is the \<^verbatim>\<open>map\<close> over the array: it stops at the first entry on which
  \<^verbatim>\<open>escapeHtml\<close> throws.
\<close>

abbreviation (input) nl :: string where
  "nl \<equiv> [CHR 0x0A]"

fun map_tags :: "jsval list \<Rightarrow> error + string list" where
  \<open>map_tags [] = Inr []\<close>
| \<open>map_tags (tag # tags) =
     and_then (escapeHtml tag) (\<lambda>t.
     and_then (map_tags tags) (\<lambda>spans.
       Inr ((''<span class="tag">'' @ t @ ''</span>'') # spans)))\<close>

definition tagsHTML :: "jsval \<Rightarrow> error + string" where
  \<open>tagsHTML post =
     and_then (get_prop post ''tags'') (\<lambda>tags.
       if truthy tags \<and> isArray tags then
         and_then (map_tags (case tags of Arr xs \<Rightarrow> xs | _ \<Rightarrow> [])) (\<lambda>spans.
           Inr (nl @ ''        <div class="post-tags">'' @ nl @
                ''          '' @ concat spans @ nl @
                ''        </div>'' @ nl @
                ''      ''))
       else Inr [])\<close>

text \<open>
  The markup assigned to \<^verbatim>\<open>article.innerHTML\<close>. The interpolations are evaluated from
  left to right; the result of \<^verbatim>\<open>formatDate\<close> goes into the markup as it is, converted to a
  string.
\<close>

definition authorHTML :: "jsval \<Rightarrow> error + string" where
  \<open>authorHTML post =
     and_then (get_prop post ''author'') (\<lambda>author.
       if truthy author then
         and_then (escapeHtml author) (\<lambda>a.
           Inr (''<span class="post-author">By '' @ a @ ''</span>''))
       else Inr [])\<close>

definition articleHTML :: "platform \<Rightarrow> jsval \<Rightarrow> string \<Rightarrow> string \<Rightarrow> error + string" where
  \<open>articleHTML P post image_html tags_html =
     and_then (get_prop post ''title'') (\<lambda>title.
     and_then (escapeHtml title) (\<lambda>title_text.
     and_then (get_prop post ''excerpt'') (\<lambda>excerpt.
     and_then (get_prop post ''description'') (\<lambda>description.
     and_then (escapeHtml (js_or (js_or excerpt description) (Str []))) (\<lambda>excerpt_text.
     and_then (get_prop post ''date'') (\<lambda>date.
     and_then (ToString P (formatDate P date)) (\<lambda>date_text.
     and_then (authorHTML post) (\<lambda>author.
     and_then (get_prop post ''url'') (\<lambda>url.
     and_then (escapeHtml (js_or url (Str ''#''))) (\<lambda>href.
       Inr (nl @ ''      <div class="post-content">'' @ nl @
            ''        '' @ image_html @ nl @
            ''        <div class="post-text">'' @ nl @
            ''          <h2 class="post-title">'' @ title_text @ ''</h2>'' @ nl @
            ''          <p class="post-excerpt">'' @ excerpt_text @ ''</p>'' @ nl @
            ''          '' @ tags_html @ nl @
            ''          <div class="post-meta">'' @ nl @
            ''            <span class="post-date">'' @ date_text @ ''</span>'' @ nl @
            ''            '' @ author @ nl @
            ''          </div>'' @ nl @
            ''          <a href="'' @ href @ ''" class="post-link">Read More</a>'' @ nl @
            ''        </div>'' @ nl @
            ''      </div>'' @ nl @
            ''    '')))))))))))\<close>

text \<open>
  \<^verbatim>\<open>
  createPostElement(post) {
    const article = document.createElement('article');
    article.className = 'post';
    article.setAttribute('data-id', post.id);
    ...
    article.innerHTML = `...`;
    return article;
  }
  \<close>
  \<^verbatim>\<open>setAttribute\<close> converts its value to a string.
\<close>

definition createPostElement :: "platform \<Rightarrow> jsval \<Rightarrow> error + node" where
  "createPostElement P post =
     and_then (get_prop post ''id'') (\<lambda>id.
     and_then (ToString P id) (\<lambda>data_id.
     and_then (imageHTML post) (\<lambda>image_html.
     and_then (tagsHTML post) (\<lambda>tags_html.
     and_then (articleHTML P post image_html tags_html) (\<lambda>html.
       Inr (Element ''article'' [(''class'', ''post''), (''data-id'', data_id)] []
              (parse_fragment html)))))))"

text \<open>
  The page, as far as the Renderer touches it: the children of the element with the
  identifier \<^verbatim>\<open>posts-container\<close>, or \<open>None\<close> when the document has no such element.
  A statement leaves a page and either completes (\<open>None\<close>) or throws.
\<close>

type_synonym page = "node list option"

text \<open>
  \<^verbatim>\<open>
  posts.forEach(post => {
    const postElement = this.createPostElement(post);
    container.appendChild(postElement);
  });
  \<close>
  An error leaves the loop at once; what was appended before stays in the container.
\<close>

fun forEach_append :: "platform \<Rightarrow> jsval list \<Rightarrow> node list \<Rightarrow> error option \<times> node list" where
  "forEach_append P [] kids = (None, kids)"
| "forEach_append P (post # posts) kids =
     (case createPostElement P post of
        Inl e \<Rightarrow> (Some e, kids)
      | Inr postElement \<Rightarrow> forEach_append P posts (kids @ [postElement]))"

text \<open>
  \<^verbatim>\<open>
  renderPosts(posts) {
    const container = document.getElementById('posts-container');
    if (!container) { console.error('Posts container not found'); return; }
    container.innerHTML = '';
    if (posts.length === 0) {
      container.innerHTML = '<p class="no-posts">No posts available.</p>';
      return;
    }
    posts.forEach(...);
  }
  \<close>
  Only an array has \<^verbatim>\<open>forEach\<close>; on any other value the call throws.
\<close>

definition renderPosts :: "platform \<Rightarrow> jsval \<Rightarrow> page \<Rightarrow> error option \<times> page" where
  \<open>renderPosts P posts page =
     (case page of
        None \<Rightarrow> (None, None)
      | Some old \<Rightarrow>
          (case get_prop posts ''length'' of
             Inl e \<Rightarrow> (Some e, Some (parse_fragment []))
           | Inr n \<Rightarrow>
               if n = Num 0
               then (None, Some (parse_fragment ''<p class="no-posts">No posts available.</p>''))
               else (case posts of
                       Arr xs \<Rightarrow>
                         (case forEach_append P xs (parse_fragment []) of
                            (r, kids) \<Rightarrow> (r, Some kids))
                     | _ \<Rightarrow> (Some TypeError, Some (parse_fragment [])))))\<close>

text \<open>
  \<^verbatim>\<open>
  displayError(message) {
    const container = document.getElementById('posts-container');
    if (container) {
      container.innerHTML = `<div class="error-message">${this.escapeHtml(message)}</div>`;
    }
  }
  \<close>
\<close>

definition displayError :: "jsval \<Rightarrow> page \<Rightarrow> error option \<times> page" where
  \<open>displayError message page =
     (case page of
        None \<Rightarrow> (None, None)
      | Some old \<Rightarrow>
          (case escapeHtml message of
             Inl e \<Rightarrow> (Some e, Some old)
           | Inr m \<Rightarrow>
               (None, Some (parse_fragment (''<div class="error-message">'' @ m @ ''</div>'')))))\<close>

section \<open>The Loader\<close>

text \<open>
  \<^verbatim>\<open>
  async loadPosts() {
    try {
      const response = await fetch('data/posts.json');
      if (!response.ok) { throw new Error(`HTTP error! status: ${response.status}`); }
      const posts = await response.json();
      this.renderPosts(posts);
    } catch (error) {
      console.error('Error loading posts:', error);
      this.displayError('Failed to load posts. Please try again later.');
    }
  }
  \<close>
  What the network does is the input of the model: \<^verbatim>\<open>fetch\<close> rejects (\<open>Inl\<close>) or gives a
  response with a status, whose \<^verbatim>\<open>json()\<close> rejects (the body is not JSON) or gives a
  value. \<^verbatim>\<open>response.ok\<close> is true for the statuses from 200 to 299. The result is the page and
  what the returned promise does: fulfil (\<open>None\<close>) or reject with an error.
\<close>

datatype response = Response nat "error + jsval"

definition ok :: "nat \<Rightarrow> bool" where
  "ok status = (200 \<le> status \<and> status \<le> 299)"

definition try_block :: "platform \<Rightarrow> error + response \<Rightarrow> page \<Rightarrow> error option \<times> page" where
  "try_block P fetched page =
     (case fetched of
        Inl e \<Rightarrow> (Some e, page)
      | Inr (Response status body) \<Rightarrow>
          if \<not> ok status then (Some (HttpError status), page)
          else (case body of
                  Inl e \<Rightarrow> (Some e, page)
                | Inr posts \<Rightarrow> renderPosts P posts page))"

definition loadPosts :: "platform \<Rightarrow> error + response \<Rightarrow> page \<Rightarrow> error option \<times> page" where
  "loadPosts P fetched page =
     (case try_block P fetched page of
        (None, page') \<Rightarrow> (None, page')
      | (Some error, page') \<Rightarrow>
          displayError (Str ''Failed to load posts. Please try again later.'') page')"

section \<open>The filters\<close>

text \<open>
  Both filters visit every element of class \<^verbatim>\<open>post\<close> of the document and assign its
  \<^verbatim>\<open>style.display\<close>. The value assigned to an element is computed from the classes and the
  text of the nodes below it, which no assignment changes, so the visit is a map over the
  tree: \<open>set_posts_display f\<close> gives every post element the display \<open>f\<close> computes from it.
\<close>

fun set_posts_display :: "(node \<Rightarrow> string) \<Rightarrow> node \<Rightarrow> node" where
  "set_posts_display f (Text s) = Text s"
| "set_posts_display f (Element t a d kids) =
     Element t a
       (if has_class ''post'' (Element t a d kids) then f (Element t a d kids) else d)
       (map (set_posts_display f) kids)"

text \<open>
  \<^verbatim>\<open>
  filterByTag(tag) {
    const posts = document.querySelectorAll('.post');
    posts.forEach(post => {
      const tags = Array.from(post.querySelectorAll('.tag')).map(t => t.textContent);
      post.style.display = tags.includes(tag) ? 'block' : 'none';
    });
  }
  \<close>
\<close>

definition filterByTag :: "string \<Rightarrow> node list \<Rightarrow> node list" where
  "filterByTag tag doc =
     map (set_posts_display (\<lambda>post.
            let tags = map textContent (querySelectorAll ''tag'' post)
            in if tag \<in> set tags then ''block'' else ''none'')) doc"

text \<open>
  \<^verbatim>\<open>includes\<close>: the search string starts at some position of the text.
\<close>

fun startsWith :: "string \<Rightarrow> string \<Rightarrow> bool" where
  "startsWith s [] = True"
| "startsWith [] (q # qs) = False"
| "startsWith (c # cs) (q # qs) = (c = q \<and> startsWith cs qs)"

fun String_includes :: "string \<Rightarrow> string \<Rightarrow> bool" where
  "String_includes [] q = (q = [])"
| "String_includes (c # cs) q = (startsWith (c # cs) q \<or> String_includes cs q)"

text \<open>
  \<^verbatim>\<open>
  searchPosts(query) {
    const posts = document.querySelectorAll('.post');
    const lowerQuery = query.toLowerCase();
    posts.forEach(post => {
      const title = post.querySelector('.post-title')?.textContent.toLowerCase() || '';
      const excerpt = post.querySelector('.post-excerpt')?.textContent.toLowerCase() || '';
      const matches = title.includes(lowerQuery) || excerpt.includes(lowerQuery);
      post.style.display = matches ? 'block' : 'none';
    });
  }
  \<close>
\<close>

text \<open>
  \<^verbatim>\<open>String.prototype.toLowerCase\<close> is the host's: it maps every cased letter of Unicode,
  which the 8-bit characters of the model do not carry. It is a parameter of the model,
  \<open>toLowerCase\<close>, and nothing is assumed of it.
\<close>

definition lower_text :: "(string \<Rightarrow> string) \<Rightarrow> string \<Rightarrow> node \<Rightarrow> string" where
  "lower_text toLowerCase c post =
     (case querySelector c post of None \<Rightarrow> [] | Some e \<Rightarrow> toLowerCase (textContent e))"

definition searchPosts :: "(string \<Rightarrow> string) \<Rightarrow> string \<Rightarrow> node list \<Rightarrow> node list" where
  "searchPosts toLowerCase query doc =
     (let lowerQuery = toLowerCase query
      in map (set_posts_display (\<lambda>post.
                let title = lower_text toLowerCase ''post-title'' post;
                    excerpt = lower_text toLowerCase ''post-excerpt'' post;
                    matches = String_includes title lowerQuery \<or> String_includes excerpt lowerQuery
                in if matches then ''block'' else ''none'')) doc)"

text \<open>
  The search as the specification words it: shown when the lower-cased query is a substring
  of the lower-cased title text or of the lower-cased excerpt text, hidden otherwise.
\<close>

definition search_display :: "(string \<Rightarrow> string) \<Rightarrow> string \<Rightarrow> node \<Rightarrow> string" where
  "search_display toLowerCase query post =
     (if sublist (toLowerCase query) (lower_text toLowerCase ''post-title'' post)
         \<or> sublist (toLowerCase query) (lower_text toLowerCase ''post-excerpt'' post)
      then ''block'' else ''none'')"

text \<open>
  What the specification asks of an escaped text: none of the characters \<open>< > " '\<close> occurs
  in it, and every \<open>&\<close> in it is the first character of one of the five entities.
\<close>

definition entity_follows :: "string \<Rightarrow> bool" where
  "entity_follows cs =
     (startsWith cs ''amp;'' \<or> startsWith cs ''lt;'' \<or> startsWith cs ''gt;''
      \<or> startsWith cs ''quot;'' \<or> startsWith cs ''#039;'')"

fun no_raw :: "string \<Rightarrow> bool" where
  "no_raw [] = True"
| "no_raw (c # cs) =
     (if c = CHR ''&'' then entity_follows cs \<and> no_raw cs
      else c \<notin> set [CHR ''<'', CHR ''>'', CHR 0x22, CHR 0x27] \<and> no_raw cs)"

section \<open>The document a record denotes\<close>

text \<open>
  The definitions of this section state what the markup of a record is and what the browser
  makes of it; the Renderer is proved against them below.

  \<open>build_from\<close> is the run of the tokenizer and the tree builder from a given state, as
  \<open>parse_fragment\<close> starts it. \<open>add_text\<close> appends characters to the children of an element,
  as the tree builder does. \<open>dom_text\<close> is the text that escaped text denotes in an element:
  the text with its newlines normalised and every NUL dropped; \<open>attr_text\<close> is what it
  denotes in an attribute value.
\<close>

definition build_from :: "bool \<Rightarrow> tstate \<Rightarrow> string \<Rightarrow> frame list \<Rightarrow> frame list" where
  "build_from b st s fs = foldl tree_step fs (tokens_from st (normalize_newlines b s))"

definition add_text :: "string \<Rightarrow> node list \<Rightarrow> node list" where
  "add_text s kids = foldl (\<lambda>k c. append_char c k) kids s"

definition dom_text :: "bool \<Rightarrow> string \<Rightarrow> string" where
  "dom_text b s = filter (\<lambda>c. c \<noteq> NUL) (normalize_newlines b s)"

definition attr_text :: "bool \<Rightarrow> string \<Rightarrow> string" where
  "attr_text b s = concat (map value_chars (normalize_newlines b s))"

abbreviation (input) DQ :: char where "DQ \<equiv> CHR 0x22"

text \<open>
  The markup the templates write, with the escaped text of each slot, and the element a tag
  entry becomes.
\<close>

definition span_markup :: "string \<Rightarrow> string" where
  \<open>span_markup s = ''<span class="tag">'' @ String_replace re_special replacer s @ ''</span>''\<close>

definition tag_span :: "string \<Rightarrow> node" where
  "tag_span s = Element ''span'' [(''class'', ''tag'')] [] (add_text (dom_text False s) [])"

definition tags_block :: "string list \<Rightarrow> string" where
  \<open>tags_block strs =
     nl @ ''        <div class="post-tags">'' @ nl @
     ''          '' @ concat (map span_markup strs) @ nl @
     ''        </div>'' @ nl @
     ''      ''\<close>

definition img_markup :: "string \<Rightarrow> string \<Rightarrow> string" where
  \<open>img_markup src alt =
     ''<img src="'' @ String_replace re_special replacer src @ ''" alt="'' @
        String_replace re_special replacer alt @ ''" class="post-image">''\<close>

definition by_markup :: "string \<Rightarrow> string" where
  \<open>by_markup author =
     ''<span class="post-author">By '' @ String_replace re_special replacer author @ ''</span>''\<close>

definition article_markup ::
  "string \<Rightarrow> string \<Rightarrow> string \<Rightarrow> string \<Rightarrow> string \<Rightarrow> string \<Rightarrow> string \<Rightarrow> string" where
  \<open>article_markup i title excerpt tg d au href =
     nl @ ''      <div class="post-content">'' @ nl @
     ''        '' @ i @ nl @
     ''        <div class="post-text">'' @ nl @
     ''          <h2 class="post-title">'' @ String_replace re_special replacer title @ ''</h2>'' @ nl @
     ''          <p class="post-excerpt">'' @ String_replace re_special replacer excerpt @ ''</p>'' @ nl @
     ''          '' @ tg @ nl @
     ''          <div class="post-meta">'' @ nl @
     ''            <span class="post-date">'' @ d @ ''</span>'' @ nl @
     ''            '' @ au @ nl @
     ''          </div>'' @ nl @
     ''          <a href="'' @ String_replace re_special replacer href @ ''" class="post-link">Read More</a>'' @ nl @
     ''        </div>'' @ nl @
     ''      </div>'' @ nl @
     ''    ''\<close>

text \<open>
  What the proofs about rendered records ask of the host: a formatted date is plain text.
  \<^verbatim>\<open>formatDate\<close> is the one interpolation the Renderer does not escape.
\<close>

definition plain_dates :: "platform \<Rightarrow> bool" where
  "plain_dates P \<longleftrightarrow>
     (\<forall>t. CHR ''<'' \<notin> set (Date_format P t) \<and> CHR ''&'' \<notin> set (Date_format P t))"

text \<open>The texts of the excerpt elements of what \<^verbatim>\<open>createPostElement\<close> returns.\<close>

definition rendered_excerpt :: "error + node \<Rightarrow> string list" where
  "rendered_excerpt r =
     (case r of Inl e \<Rightarrow> [] | Inr el \<Rightarrow> map textContent (querySelectorAll ''post-excerpt'' el))"

text \<open>Records for evaluating the Renderer.\<close>

definition ab_post :: jsval where
  "ab_post = Obj [(''title'', Str ''Nails''), (''tags'', Arr [Str ''a'', Str ''b''])]"

definition string_tags_post :: jsval where
  "string_tags_post = Obj [(''title'', Str ''Nails''), (''tags'', Str ''not-an-array'')]"

definition empty_excerpt_post :: jsval where
  "empty_excerpt_post = Obj [(''title'', Str ''t''), (''excerpt'', Str []), (''description'', Str ''d'')]"

section \<open>Properties of the Sanitizer\<close>

lemma replacer_sanitize_char: "re_special c \<Longrightarrow> replacer c = sanitize_char c"
  by (auto simp: re_special_def replacer_def sanitize_char_def map_entities_def)

lemma sanitize_char_other: "\<not> re_special c \<Longrightarrow> sanitize_char c = [c]"
  by (simp add: re_special_def sanitize_char_def)

lemma String_replace_concat:
  "String_replace re_special replacer s = concat (map sanitize_char s)"
  by (induction s) (simp_all add: replacer_sanitize_char sanitize_char_other)

lemma sanitize_char_no_markup:
  "c' \<in> set (sanitize_char c) \<Longrightarrow> c' \<notin> {CHR ''<'', CHR ''>'', CHR 0x22, CHR 0x27}"
  by (auto simp: sanitize_char_def split: if_splits)

lemma escaped_no_markup:
  "set (String_replace re_special replacer s) \<inter> {CHR ''<'', CHR ''>'', CHR 0x22, CHR 0x27} = {}"
proof -
  have "c' \<notin> {CHR ''<'', CHR ''>'', CHR 0x22, CHR 0x27}"
    if "c' \<in> set (concat (map sanitize_char s))" for c'
  proof -
    from that obtain c where "c' \<in> set (sanitize_char c)" by auto
    then show ?thesis by (rule sanitize_char_no_markup)
  qed
  then show ?thesis unfolding String_replace_concat by blast
qed

lemma re_special_cases:
  "re_special c \<longleftrightarrow> c = CHR ''&'' \<or> c \<in> {CHR ''<'', CHR ''>'', CHR 0x22, CHR 0x27}"
  by (auto simp: re_special_def)

lemma String_replace_amp_only:
  "set t \<inter> {CHR ''<'', CHR ''>'', CHR 0x22, CHR 0x27} = {} \<Longrightarrow>
   String_replace re_special replacer t = concat (map amp_again t)"
proof (induction t)
  case Nil
  then show ?case by simp
next
  case (Cons c t)
  from Cons.prems have t: "set t \<inter> {CHR ''<'', CHR ''>'', CHR 0x22, CHR 0x27} = {}"
    and c: "c \<notin> {CHR ''<'', CHR ''>'', CHR 0x22, CHR 0x27}"
    by auto
  from Cons.IH [OF t]
  have rest: "String_replace re_special replacer t = concat (map amp_again t)" .
  show ?case
  proof (cases "c = CHR ''&''")
    case True
    then have "re_special c" and "replacer c = ''&amp;''" and "amp_again c = ''&amp;''"
      by (simp_all add: re_special_def replacer_def map_entities_def amp_again_def)
    then show ?thesis by (simp add: rest)
  next
    case False
    with c have "\<not> re_special c" by (simp add: re_special_cases)
    moreover from False have "amp_again c = [c]" by (simp add: amp_again_def)
    ultimately show ?thesis by (simp add: rest)
  qed
qed

text \<open>
  C3. For every text, \<^verbatim>\<open>escapeHtml\<close> returns the text with each of the five characters
  \<open>& < > " '\<close> replaced by its entity and every other character kept, in the original order:
  the result is the concatenation of the images of the characters, one after the other.
\<close>

theorem escapeHtml_replaces_each_char:
  "escapeHtml (Str s) = Inr (concat (map sanitize_char s))"
  by (simp add: String_replace_concat)

lemma no_raw_sanitize_char: "no_raw rest \<Longrightarrow> no_raw (sanitize_char c @ rest)"
  by (simp add: sanitize_char_def entity_follows_def)

lemma no_raw_escaped: "no_raw (concat (map sanitize_char s))"
  by (induction s) (simp_all add: no_raw_sanitize_char)

lemma twice_per_char:
  "concat (map amp_again (concat (map sanitize_char s))) =
   concat (map (\<lambda>c. concat (map amp_again (sanitize_char c))) s)"
  by (induction s) simp_all

text \<open>
  C4. For every text, the escaped text holds none of the raw characters: \<open>< > " '\<close> do not
  occur in it, and every \<open>&\<close> in it starts one of the five entities. Escaping the escaped
  text again succeeds and changes nothing but each \<open>&\<close>, which becomes \<open>&amp;\<close>: the
  result is, character by character of the input, the entity of the character with its
  \<open>&\<close> escaped once more.
\<close>

theorem escapeHtml_no_raw_and_twice:
  "\<exists>out. escapeHtml (Str s) = Inr out
     \<and> no_raw out
     \<and> set out \<inter> {CHR ''<'', CHR ''>'', CHR 0x22, CHR 0x27} = {}
     \<and> escapeHtml (Str out) = Inr (concat (map amp_again out))
     \<and> concat (map amp_again out) =
         concat (map (\<lambda>c. concat (map amp_again (sanitize_char c))) s)"
proof -
  let ?out = "String_replace re_special replacer s"
  have "no_raw ?out" unfolding String_replace_concat by (rule no_raw_escaped)
  moreover have "concat (map amp_again ?out) =
         concat (map (\<lambda>c. concat (map amp_again (sanitize_char c))) s)"
    unfolding String_replace_concat by (rule twice_per_char)
  ultimately show ?thesis
    using escaped_no_markup [of s] by (simp add: String_replace_amp_only)
qed

section \<open>Properties of the Formatter\<close>

lemma formatDate_absent:
  "formatDate P Undefined = Str []" "formatDate P Null = Str []" "formatDate P (Str []) = Str []"
  by (simp_all add: formatDate_def)

text \<open>On a text the \<^verbatim>\<open>catch\<close> branch is never taken: nothing in the \<^verbatim>\<open>try\<close> block throws.\<close>

lemma formatDate_text:
  "s \<noteq> [] \<Longrightarrow> formatDate P (Str s) = Str (toLocaleDateString P (Date_parse P s))"
  by (simp add: formatDate_def)

lemma formatDate_fallback:
  "truthy v \<Longrightarrow> new_Date P v = Inl e \<Longrightarrow> formatDate P v = v"
  by (simp add: formatDate_def)

lemma iso_date_only_not_a_date: "iso_date_only ''not-a-date'' = None"
  by (simp add: iso_date_only_def)

text \<open>
  C1. The claim holds for the absent and the empty input (\<open>formatDate_absent\<close>), and the
  reference host in UTC prints \<^verbatim>\<open>2024-03-15\<close> as \<^verbatim>\<open>March 15, 2024\<close>. It fails for a text
  that is no date: on every host on which \<^verbatim>\<open>Date.parse\<close> rejects \<^verbatim>\<open>not-a-date\<close>, the
  constructor returns an invalid date without throwing, the \<^verbatim>\<open>catch\<close> branch is not
  taken, and \<^verbatim>\<open>formatDate\<close> returns the text \<^verbatim>\<open>Invalid Date\<close>, not its input.
\<close>

theorem formatDate_not_a_date:
  "Date_parse P ''not-a-date'' = None \<Longrightarrow>
   formatDate P (Str ''not-a-date'') = Str ''Invalid Date''"
  by (simp add: formatDate_def toLocaleDateString_def)

theorem formatDate_not_a_date_witness:
  "Date_parse (host 0) ''not-a-date'' = None
   \<and> formatDate (host 0) (Str ''not-a-date'') = Str ''Invalid Date''"
  using formatDate_not_a_date [of "host 0"]
  by (simp add: host_def iso_date_only_not_a_date)

lemma formatDate_2024_03_15: "formatDate (host 0) (Str ''2024-03-15'') = Str ''March 15, 2024''"
  by code_simp

section \<open>Properties of the Loader and the Renderer\<close>

lemma parse_fragment_empty: "parse_fragment [] = []"
  by (simp add: parse_fragment_def)

lemma parse_fragment_no_posts:
  \<open>parse_fragment ''<p class="no-posts">No posts available.</p>'' =
     [Element ''p'' [(''class'', ''no-posts'')] [] [Text ''No posts available.'']]\<close>
  by code_simp

lemma escapeHtml_message:
  "escapeHtml (Str ''Failed to load posts. Please try again later.'') =
     Inr ''Failed to load posts. Please try again later.''"
  by code_simp

lemma parse_fragment_error_message:
  \<open>parse_fragment (''<div class="error-message">'' @
       ''Failed to load posts. Please try again later.'' @ ''</div>'') =
     [Element ''div'' [(''class'', ''error-message'')] []
        [Text ''Failed to load posts. Please try again later.'']]\<close>
  by code_simp

lemma displayError_message:
  "displayError (Str ''Failed to load posts. Please try again later.'') (Some old) =
     (None, Some [Element ''div'' [(''class'', ''error-message'')] []
                    [Text ''Failed to load posts. Please try again later.'']])"
  unfolding displayError_def escapeHtml_message using parse_fragment_error_message by simp

lemma loadPosts_caught:
  "try_block P fetched page = (Some e, Some old) \<Longrightarrow>
   loadPosts P fetched page =
     (None, Some [Element ''div'' [(''class'', ''error-message'')] []
                    [Text ''Failed to load posts. Please try again later.'']])"
  by (simp add: loadPosts_def displayError_message)

lemma no_post_in_error_message:
  "document_querySelectorAll ''post''
     [Element ''div'' [(''class'', ''error-message'')] []
        [Text ''Failed to load posts. Please try again later.'']] = []"
  by code_simp

text \<open>
  C2. Whenever the load sequence fails (\<^verbatim>\<open>fetch\<close> rejects, the status is not a success
  status, or the body is not JSON) and the page has the container, the promise of
  \<^verbatim>\<open>loadPosts\<close> fulfils (the error does not leave it), and the content of the container is
  exactly one element of class \<^verbatim>\<open>error-message\<close> holding the fixed message, with no post
  element in it.
\<close>

theorem loadPosts_failure_displays_message:
  assumes "fetched = Inl e
         \<or> (\<exists>status body. fetched = Inr (Response status body) \<and> \<not> ok status)
         \<or> (\<exists>status e'. fetched = Inr (Response status (Inl e')))"
  shows "\<exists>content. loadPosts P fetched (Some old) = (None, Some content)
           \<and> content = [Element ''div'' [(''class'', ''error-message'')] []
                          [Text ''Failed to load posts. Please try again later.'']]
           \<and> document_querySelectorAll ''post'' content = []"
proof -
  from assms have "\<exists>e. try_block P fetched (Some old) = (Some e, Some old)"
    by (auto simp: try_block_def)
  then obtain e' where "try_block P fetched (Some old) = (Some e', Some old)" ..
  then show ?thesis
    by (simp add: loadPosts_caught no_post_in_error_message)
qed

theorem loadPosts_failure_displays_message_witness:
  "\<exists>content. loadPosts (host 0) (Inr (Response 404 (Inr (Arr [])))) (Some [Text ''old'']) =
       (None, Some content)
     \<and> content = [Element ''div'' [(''class'', ''error-message'')] []
                    [Text ''Failed to load posts. Please try again later.'']]
     \<and> document_querySelectorAll ''post'' content = []"
proof -
  have "\<exists>status body. (Inr (Response 404 (Inr (Arr []))) :: error + response) =
          Inr (Response status body) \<and> \<not> ok status"
    by (simp add: ok_def)
  then show ?thesis
    using loadPosts_failure_displays_message
      [of "Inr (Response 404 (Inr (Arr [])))" TypeError "host 0" "[Text ''old'']"]
    by blast
qed

lemma one_placeholder:
  "document_querySelectorAll ''no-posts''
     [Element ''p'' [(''class'', ''no-posts'')] [] [Text ''No posts available.'']] =
     [Element ''p'' [(''class'', ''no-posts'')] [] [Text ''No posts available.'']]"
  "document_querySelectorAll ''post''
     [Element ''p'' [(''class'', ''no-posts'')] [] [Text ''No posts available.'']] = []"
  by code_simp+

text \<open>
  C5. For the empty array, \<^verbatim>\<open>renderPosts\<close> completes and replaces the content of the
  container, whatever it was, with exactly one element: a \<^verbatim>\<open>p\<close> of class \<^verbatim>\<open>no-posts\<close>
  with the text \<^verbatim>\<open>No posts available.\<close>; the container then holds no post element.
\<close>

theorem renderPosts_empty:
  "\<exists>content. renderPosts P (Arr []) (Some old) = (None, Some content)
     \<and> content = [Element ''p'' [(''class'', ''no-posts'')] [] [Text ''No posts available.'']]
     \<and> document_querySelectorAll ''no-posts'' content = content
     \<and> document_querySelectorAll ''post'' content = []"
  by (simp add: renderPosts_def parse_fragment_no_posts one_placeholder)

lemma escapeHtml_non_string: "(\<forall>s. v \<noteq> Str s) \<Longrightarrow> escapeHtml v = Inl TypeError"
  by (cases v) simp_all

lemma articleHTML_needs_title:
  assumes "\<forall>s. get_prop post ''title'' \<noteq> Inr (Str s)"
  shows "\<exists>e. articleHTML P post image_html tags_html = Inl e"
proof (cases "get_prop post ''title''")
  case (Inl e)
  then show ?thesis by (simp add: articleHTML_def and_then_def)
next
  case (Inr v)
  with assms have "\<forall>s. v \<noteq> Str s" by simp
  then have "escapeHtml v = Inl TypeError" by (rule escapeHtml_non_string)
  with Inr show ?thesis by (simp add: articleHTML_def and_then_def)
qed

lemma createPostElement_needs_title:
  assumes "\<forall>s. get_prop post ''title'' \<noteq> Inr (Str s)"
  shows "\<exists>e. createPostElement P post = Inl e"
proof -
  have "\<exists>e. and_then (articleHTML P post i t) f = Inl e" for i t and f :: "string \<Rightarrow> error + node"
    using articleHTML_needs_title [OF assms, of P i t] by (auto simp: and_then_def)
  then show ?thesis
    unfolding createPostElement_def
    by (auto simp: and_then_def split: sum.splits)
qed

lemma forEach_append_aborts:
  "post \<in> set posts \<Longrightarrow> \<exists>e. createPostElement P post = Inl e \<Longrightarrow>
   \<exists>e kids'. forEach_append P posts kids = (Some e, kids')"
proof (induction posts arbitrary: kids)
  case Nil
  then show ?case by simp
next
  case (Cons p posts)
  show ?case
  proof (cases "createPostElement P p")
    case (Inl e)
    then show ?thesis by simp
  next
    case (Inr el)
    with Cons.prems have "post \<in> set posts" by auto
    from Cons.IH [OF this Cons.prems(2)] Inr show ?thesis by simp
  qed
qed

lemma renderPosts_aborts:
  assumes "post \<in> set posts" and "\<exists>e. createPostElement P post = Inl e"
  shows "\<exists>e kids'. renderPosts P (Arr posts) (Some old) = (Some e, Some kids')"
proof -
  from assms(1) have "posts \<noteq> []" by auto
  moreover obtain e kids' where "forEach_append P posts (parse_fragment []) = (Some e, kids')"
    using forEach_append_aborts [OF assms] by blast
  ultimately show ?thesis by (simp add: renderPosts_def)
qed

text \<open>
  C10. \<^verbatim>\<open>escapeHtml\<close> throws a \<^verbatim>\<open>TypeError\<close> on every value that is no string. So when the
  fetched array holds a record whose title is absent or no string (or that is no object at
  all), \<^verbatim>\<open>createPostElement\<close> throws on that record; with a success status and the
  container present, \<^verbatim>\<open>loadPosts\<close> catches the error and completes, and the container
  ends up holding the error message alone: no post element, whatever the other records were.
\<close>

theorem bad_title_discards_all_posts:
  assumes "post \<in> set posts" and "\<forall>s. get_prop post ''title'' \<noteq> Inr (Str s)" and "ok status"
  shows "(\<forall>v. (\<forall>s. v \<noteq> Str s) \<longrightarrow> escapeHtml v = Inl TypeError)
       \<and> (\<exists>e. createPostElement P post = Inl e)
       \<and> (\<exists>content. loadPosts P (Inr (Response status (Inr (Arr posts)))) (Some old) =
               (None, Some content)
             \<and> content = [Element ''div'' [(''class'', ''error-message'')] []
                            [Text ''Failed to load posts. Please try again later.'']]
             \<and> document_querySelectorAll ''post'' content = [])"
proof -
  have bad: "\<exists>e. createPostElement P post = Inl e"
    using assms(2) by (rule createPostElement_needs_title)
  obtain e kids' where "renderPosts P (Arr posts) (Some old) = (Some e, Some kids')"
    using renderPosts_aborts [OF assms(1) bad] by blast
  with assms(3)
  have "try_block P (Inr (Response status (Inr (Arr posts)))) (Some old) = (Some e, Some kids')"
    by (simp add: try_block_def)
  then have "loadPosts P (Inr (Response status (Inr (Arr posts)))) (Some old) =
     (None, Some [Element ''div'' [(''class'', ''error-message'')] []
                    [Text ''Failed to load posts. Please try again later.'']])"
    by (rule loadPosts_caught)
  with bad show ?thesis
    by (simp add: escapeHtml_non_string no_post_in_error_message)
qed

theorem bad_title_discards_all_posts_witness:
  "Obj [(''id'', Num 2)] \<in> set [Obj [(''title'', Str ''ok'')], Obj [(''id'', Num 2)]]
   \<and> (\<forall>s. get_prop (Obj [(''id'', Num 2)]) ''title'' \<noteq> Inr (Str s))
   \<and> ok 200
   \<and> (\<exists>e. createPostElement (host 0) (Obj [(''id'', Num 2)]) = Inl e)
   \<and> loadPosts (host 0) (Inr (Response 200 (Inr (Arr [Obj [(''title'', Str ''ok'')], Obj [(''id'', Num 2)]]))))
        (Some []) =
        (None, Some [Element ''div'' [(''class'', ''error-message'')] []
                    [Text ''Failed to load posts. Please try again later.'']])"
  using bad_title_discards_all_posts [of "Obj [(''id'', Num 2)]" "[Obj [(''title'', Str ''ok'')], Obj [(''id'', Num 2)]]" 200 "host 0" "[]"]
  by (simp add: ok_def)

section \<open>Properties of the filters\<close>

lemma classList_set_posts_display [simp]: "classList (set_posts_display f n) = classList n"
  by (cases n) simp_all

lemma has_class_set_posts_display [simp]: "has_class c (set_posts_display f n) = has_class c n"
  by (simp add: has_class_def)

lemma textContent_set_posts_display [simp]: "textContent (set_posts_display f n) = textContent n"
  by (induction n) (simp_all cong: map_cong)

lemma descendants_set_posts_display:
  "descendants (set_posts_display f n) = map (set_posts_display f) (descendants n)"
  by (induction n) (simp_all add: map_concat comp_def cong: map_cong)

lemma nodes_of_set_posts_display:
  "nodes_of (map (set_posts_display f) doc) = map (set_posts_display f) (nodes_of doc)"
  by (simp add: nodes_of_def map_concat comp_def descendants_set_posts_display)

lemma filter_has_class_map:
  "filter (has_class c) (map (set_posts_display f) ns) =
   map (set_posts_display f) (filter (has_class c) ns)"
  by (induction ns) simp_all

lemma querySelectorAll_set_posts_display:
  "querySelectorAll c (set_posts_display f n) = map (set_posts_display f) (querySelectorAll c n)"
  by (simp add: querySelectorAll_def descendants_set_posts_display filter_has_class_map)

lemma document_querySelectorAll_set_posts_display:
  "document_querySelectorAll c (map (set_posts_display f) doc) =
   map (set_posts_display f) (document_querySelectorAll c doc)"
  by (simp add: document_querySelectorAll_def nodes_of_set_posts_display filter_has_class_map)

lemma style_display_set_posts_display:
  "style_display (set_posts_display f n) = (if has_class ''post'' n then f n else style_display n)"
  by (cases n) (auto simp: has_class_def)

lemma tag_texts_set_posts_display:
  "map textContent (querySelectorAll c (set_posts_display f n)) = map textContent (querySelectorAll c n)"
  by (simp add: querySelectorAll_set_posts_display comp_def)

lemma posts_have_class: "n \<in> set (document_querySelectorAll c doc) \<Longrightarrow> has_class c n"
  by (simp add: document_querySelectorAll_def)

lemma displays_after:
  "map style_display (document_querySelectorAll ''post'' (map (set_posts_display f) doc)) =
   map f (document_querySelectorAll ''post'' doc)"
  by (simp add: document_querySelectorAll_set_posts_display style_display_set_posts_display
      posts_have_class cong: map_cong)

text \<open>
  C8. After \<^verbatim>\<open>filterByTag(tag)\<close> the post elements of the document are the same elements,
  in the same order and with the same tag texts, and the display of each is \<^verbatim>\<open>block\<close>
  when \<open>tag\<close> equals the text content of one of the elements of class \<^verbatim>\<open>tag\<close> below it,
  and \<^verbatim>\<open>none\<close> otherwise.
\<close>

theorem filterByTag_displays:
  "map style_display (document_querySelectorAll ''post'' (filterByTag tag doc)) =
     map (\<lambda>post. if tag \<in> set (map textContent (querySelectorAll ''tag'' post))
                  then ''block'' else ''none'')
       (document_querySelectorAll ''post'' doc)
   \<and> map (\<lambda>post. map textContent (querySelectorAll ''tag'' post))
       (document_querySelectorAll ''post'' (filterByTag tag doc)) =
     map (\<lambda>post. map textContent (querySelectorAll ''tag'' post))
       (document_querySelectorAll ''post'' doc)"
  unfolding filterByTag_def Let_def displays_after
  by (simp add: document_querySelectorAll_set_posts_display tag_texts_set_posts_display comp_def)


lemma querySelector_set_posts_display:
  "querySelector c (set_posts_display f n) = map_option (set_posts_display f) (querySelector c n)"
  by (simp add: querySelector_def querySelectorAll_set_posts_display split: list.splits)

lemma lower_text_set_posts_display [simp]:
  "lower_text lc c (set_posts_display f n) = lower_text lc c n"
  by (simp add: lower_text_def querySelector_set_posts_display split: option.splits)

lemma startsWith_iff: "startsWith s q \<longleftrightarrow> (\<exists>suf. s = q @ suf)"
  by (induction s q rule: startsWith.induct) auto

lemma String_includes_iff: "String_includes s q \<longleftrightarrow> (\<exists>pre suf. s = pre @ q @ suf)"
proof (induction s)
  case Nil
  then show ?case by auto
next
  case (Cons c cs)
  show ?case
  proof
    assume "String_includes (c # cs) q"
    then consider "startsWith (c # cs) q" | "String_includes cs q" by auto
    then show "\<exists>pre suf. c # cs = pre @ q @ suf"
    proof cases
      case 1
      then obtain suf where "c # cs = q @ suf" by (auto simp: startsWith_iff)
      then have "c # cs = [] @ q @ suf" by simp
      then show ?thesis by blast
    next
      case 2
      with Cons.IH obtain pre suf where "cs = pre @ q @ suf" by blast
      then have "c # cs = (c # pre) @ q @ suf" by simp
      then show ?thesis by blast
    qed
  next
    assume "\<exists>pre suf. c # cs = pre @ q @ suf"
    then obtain pre suf where eq: "c # cs = pre @ q @ suf" by blast
    show "String_includes (c # cs) q"
    proof (cases pre)
      case Nil
      with eq have "startsWith (c # cs) q" by (auto simp: startsWith_iff)
      then show ?thesis by simp
    next
      case (Cons p pre')
      with eq have "cs = pre' @ q @ suf" by simp
      with Cons.IH have "String_includes cs q" by blast
      then show ?thesis by simp
    qed
  qed
qed

lemma String_includes_sublist: "String_includes s q \<longleftrightarrow> sublist q s"
  by (simp add: String_includes_iff sublist_def)

lemma set_posts_display_twice:
  assumes "\<And>n. f (set_posts_display g n) = f n"
  shows "set_posts_display f (set_posts_display g n) = set_posts_display f n"
proof (induction n)
  case (Text s)
  show ?case by simp
next
  case (Element t a d kids)
  let ?e = "Element t a d kids"
  have kids: "map (set_posts_display f) (map (set_posts_display g) kids) =
              map (set_posts_display f) kids"
    using Element.IH by simp
  have "has_class ''post'' (set_posts_display g ?e) = has_class ''post'' ?e"
    by (rule has_class_set_posts_display)
  moreover have "style_display (set_posts_display g ?e) = d" if "\<not> has_class ''post'' ?e"
    using that by (simp add: style_display_set_posts_display)
  moreover have "f (set_posts_display g ?e) = f ?e" by (rule assms)
  ultimately show ?case using kids by (cases "has_class ''post'' ?e") simp_all
qed

lemma searchPosts_alt:
  "searchPosts lc query doc = map (set_posts_display (search_display lc query)) doc"
proof -
  have "(\<lambda>post. if String_includes (lower_text lc ''post-title'' post) (lc query)
                    \<or> String_includes (lower_text lc ''post-excerpt'' post) (lc query)
                 then ''block'' else ''none'') = search_display lc query"
    by (rule ext) (simp add: search_display_def String_includes_sublist)
  then show ?thesis unfolding searchPosts_def Let_def by simp
qed

lemma search_display_inv [simp]:
  "search_display lc q (set_posts_display g n) = search_display lc q n"
  by (simp add: search_display_def)


section \<open>Properties of rendered records\<close>

subsection \<open>The tokenizer and the tree builder on the text of a slot\<close>

lemma parse_fragment_build: "parse_fragment m = finish (build_from False Data m [([], [], [])])"
  by (simp add: parse_fragment_def build_from_def)

lemma build_from_Nil: "build_from b st [] fs = foldl tree_step fs (flush st)"
  by (simp add: build_from_def)

lemma build_from_Cons:
  "build_from b st (c # cs) fs =
     (if c = CR then (case tstep st LF of (st', out) \<Rightarrow> build_from True st' cs (foldl tree_step fs out))
      else if c = LF \<and> b then build_from False st cs fs
      else (case tstep st c of (st', out) \<Rightarrow> build_from False st' cs (foldl tree_step fs out)))"
  by (simp add: build_from_def split: prod.splits)

lemmas char_tests = CR_def LF_def NUL_def is_space_def is_upper_def is_lower_def is_digit_def
  to_lower_def ref_char_def data_step_def before_attr_name_step_def after_attr_name_step_def
  attr_value_step_def decode_ref_def char_refs_def void_elements_def name_chars_def value_chars_def

lemma add_text_Nil [simp]: "add_text [] kids = kids"
  by (simp add: add_text_def)

lemma add_text_Cons: "add_text (c # s) kids = add_text s (append_char c kids)"
  by (simp add: add_text_def)

lemma add_text_append: "add_text s2 (add_text s1 kids) = add_text (s1 @ s2) kids"
  by (simp add: add_text_def)

lemma insert_character_add_text:
  "insert_character c ((t, a, kids) # fs) = (t, a, add_text (filter (\<lambda>c. c \<noteq> NUL) [c]) kids) # fs"
  by (simp add: add_text_def)

lemma build_from_flag:
  "c \<noteq> LF \<Longrightarrow> build_from b st (c # rest) fs = build_from False st (c # rest) fs"
  by (simp add: build_from_Cons)

lemma escaped_Cons:
  "String_replace re_special replacer (x # xs) =
     sanitize_char x @ String_replace re_special replacer xs"
  unfolding String_replace_concat by simp

lemma build_entity_amp:
  "build_from b Data (''&amp;'' @ rest) ((t, a, kids) # fs) =
   build_from False Data rest ((t, a, append_char CHR ''&'' kids) # fs)"
  by (simp add: build_from_Cons char_tests)

lemma build_entity_lt:
  "build_from b Data (''&lt;'' @ rest) ((t, a, kids) # fs) =
   build_from False Data rest ((t, a, append_char CHR ''<'' kids) # fs)"
  by (simp add: build_from_Cons char_tests)

lemma build_entity_gt:
  "build_from b Data (''&gt;'' @ rest) ((t, a, kids) # fs) =
   build_from False Data rest ((t, a, append_char CHR ''>'' kids) # fs)"
  by (simp add: build_from_Cons char_tests)

lemma build_entity_quot:
  "build_from b Data (''&quot;'' @ rest) ((t, a, kids) # fs) =
   build_from False Data rest ((t, a, append_char CHR 0x22 kids) # fs)"
  by (simp add: build_from_Cons char_tests)

lemma build_entity_apos:
  "build_from b Data (''&#039;'' @ rest) ((t, a, kids) # fs) =
   build_from False Data rest ((t, a, append_char CHR 0x27 kids) # fs)"
  by (simp add: build_from_Cons char_tests)

lemma build_entity:
  assumes "re_special x"
  shows "build_from b Data (sanitize_char x @ rest) ((t, a, kids) # fs) =
         build_from False Data rest ((t, a, append_char x kids) # fs)"
proof -
  from assms consider "x = CHR ''&''" | "x = CHR ''<''" | "x = CHR ''>''" | "x = CHR 0x22" | "x = CHR 0x27"
    by (auto simp: re_special_def)
  then show ?thesis
  proof cases
    case 1 then show ?thesis using build_entity_amp by (simp add: sanitize_char_def)
  next
    case 2 then show ?thesis using build_entity_lt by (simp add: sanitize_char_def)
  next
    case 3 then show ?thesis using build_entity_gt by (simp add: sanitize_char_def)
  next
    case 4 then show ?thesis using build_entity_quot by (simp add: sanitize_char_def)
  next
    case 5 then show ?thesis using build_entity_apos by (simp add: sanitize_char_def)
  qed
qed

lemma build_char:
  "x \<noteq> CHR ''&'' \<Longrightarrow> x \<noteq> CHR ''<'' \<Longrightarrow> x \<noteq> CR \<Longrightarrow> x \<noteq> LF \<Longrightarrow> x \<noteq> NUL \<Longrightarrow>
   build_from b Data (x # rest) ((t, a, kids) # fs) =
   build_from False Data rest ((t, a, append_char x kids) # fs)"
  by (simp add: build_from_Cons data_step_def)

lemma build_CR:
  "build_from b Data (CR # rest) ((t, a, kids) # fs) =
   build_from True Data rest ((t, a, append_char LF kids) # fs)"
  by (simp add: build_from_Cons data_step_def) (simp add: char_tests)

lemma build_LF_skip:
  "build_from True Data (LF # rest) fs = build_from False Data rest fs"
  by (simp add: build_from_Cons) (simp add: char_tests)

lemma build_LF:
  "build_from False Data (LF # rest) ((t, a, kids) # fs) =
   build_from False Data rest ((t, a, append_char LF kids) # fs)"
  by (simp add: build_from_Cons data_step_def) (simp add: char_tests)

lemma build_NUL:
  "build_from b Data (NUL # rest) ((t, a, kids) # fs) =
   build_from False Data rest ((t, a, kids) # fs)"
  by (simp add: build_from_Cons data_step_def) (simp add: char_tests)

lemma dom_text_Nil [simp]: "dom_text b [] = []"
  by (simp add: dom_text_def)

lemma dom_text_Cons:
  "dom_text b (x # xs) =
     (if x = CR then LF # dom_text True xs
      else if x = LF \<and> b then dom_text False xs
      else if x = NUL then dom_text False xs
      else x # dom_text False xs)"
  by (simp add: dom_text_def) (simp add: char_tests)

lemma build_escaped_text:
  "c \<noteq> LF \<Longrightarrow>
   build_from b Data (String_replace re_special replacer s @ c # rest) ((t, a, kids) # fs) =
   build_from False Data (c # rest) ((t, a, add_text (dom_text b s) kids) # fs)"
proof (induction s arbitrary: b kids)
  case Nil
  then have "build_from b Data (c # rest) ((t, a, kids) # fs) =
             build_from False Data (c # rest) ((t, a, kids) # fs)"
    by (rule build_from_flag)
  then show ?case by simp
next
  case (Cons x xs)
  note IH = Cons.IH [OF Cons.prems]
  show ?case
  proof (cases "re_special x")
    case True
    then have "x \<noteq> CR" "x \<noteq> LF" "x \<noteq> NUL" by (auto simp: re_special_def char_tests)
    then have dt: "dom_text b (x # xs) = x # dom_text False xs" by (simp add: dom_text_Cons)
    have "build_from b Data (String_replace re_special replacer (x # xs) @ c # rest) ((t, a, kids) # fs) =
          build_from b Data (sanitize_char x @ (String_replace re_special replacer xs @ c # rest)) ((t, a, kids) # fs)"
      unfolding escaped_Cons by simp
    also have "\<dots> = build_from False Data (String_replace re_special replacer xs @ c # rest) ((t, a, append_char x kids) # fs)"
      using True by (rule build_entity)
    also have "\<dots> = build_from False Data (c # rest) ((t, a, add_text (dom_text False xs) (append_char x kids)) # fs)"
      by (rule IH)
    finally show ?thesis unfolding dt add_text_Cons .
  next
    case False
    then have esc: "String_replace re_special replacer (x # xs) @ c # rest =
         x # (String_replace re_special replacer xs @ c # rest)"
      by simp
    from False have nosp: "x \<noteq> CHR ''&''" "x \<noteq> CHR ''<''" by (auto simp: re_special_def)
    consider "x = CR" | "x = LF" "b" | "x = LF" "\<not> b" | "x = NUL" "x \<noteq> CR" "x \<noteq> LF"
      | "x \<noteq> CR" "x \<noteq> LF" "x \<noteq> NUL"
      by blast
    then show ?thesis
    proof cases
      case 1
      then have dt: "dom_text b (x # xs) = LF # dom_text True xs" by (simp add: dom_text_Cons)
      from 1 have "build_from b Data (x # (String_replace re_special replacer xs @ c # rest)) ((t, a, kids) # fs) =
            build_from True Data (String_replace re_special replacer xs @ c # rest) ((t, a, append_char LF kids) # fs)"
        by (simp add: build_CR)
      then show ?thesis unfolding esc dt add_text_Cons by (simp only: IH)
    next
      case 2
      then have dt: "dom_text b (x # xs) = dom_text False xs"
        by (simp add: dom_text_Cons) (simp add: char_tests)
      from 2 have "build_from b Data (x # (String_replace re_special replacer xs @ c # rest)) ((t, a, kids) # fs) =
            build_from False Data (String_replace re_special replacer xs @ c # rest) ((t, a, kids) # fs)"
        by (simp add: build_LF_skip)
      then show ?thesis unfolding esc dt by (simp only: IH)
    next
      case 3
      then have dt: "dom_text b (x # xs) = LF # dom_text False xs"
        by (simp add: dom_text_Cons) (simp add: char_tests)
      from 3 have "build_from b Data (x # (String_replace re_special replacer xs @ c # rest)) ((t, a, kids) # fs) =
            build_from False Data (String_replace re_special replacer xs @ c # rest) ((t, a, append_char LF kids) # fs)"
        by (simp add: build_LF)
      then show ?thesis unfolding esc dt add_text_Cons by (simp only: IH)
    next
      case 4
      then have dt: "dom_text b (x # xs) = dom_text False xs"
        by (simp add: dom_text_Cons)
      from 4 have "build_from b Data (x # (String_replace re_special replacer xs @ c # rest)) ((t, a, kids) # fs) =
            build_from False Data (String_replace re_special replacer xs @ c # rest) ((t, a, kids) # fs)"
        by (simp add: build_NUL)
      then show ?thesis unfolding esc dt by (simp only: IH)
    next
      case 5
      then have dt: "dom_text b (x # xs) = x # dom_text False xs"
        by (simp add: dom_text_Cons)
      from 5 nosp have "build_from b Data (x # (String_replace re_special replacer xs @ c # rest)) ((t, a, kids) # fs) =
            build_from False Data (String_replace re_special replacer xs @ c # rest) ((t, a, append_char x kids) # fs)"
        by (simp add: build_char)
      then show ?thesis unfolding esc dt add_text_Cons by (simp only: IH)
    qed
  qed
qed

lemma build_plain_text:
  "CHR ''<'' \<notin> set d \<Longrightarrow> CHR ''&'' \<notin> set d \<Longrightarrow> c \<noteq> LF \<Longrightarrow>
   build_from b Data (d @ c # rest) ((t, a, kids) # fs) =
   build_from False Data (c # rest) ((t, a, add_text (dom_text b d) kids) # fs)"
proof (induction d arbitrary: b kids)
  case Nil
  from Nil.prems(3) have "build_from b Data (c # rest) ((t, a, kids) # fs) =
             build_from False Data (c # rest) ((t, a, kids) # fs)"
    by (rule build_from_flag)
  then show ?case by simp
next
  case (Cons x xs)
  then have nosp: "x \<noteq> CHR ''&''" "x \<noteq> CHR ''<''" by auto
  from Cons have IH: "build_from b' Data (xs @ c # rest) ((t, a, kids') # fs) =
      build_from False Data (c # rest) ((t, a, add_text (dom_text b' xs) kids') # fs)" for b' kids'
    by simp
  consider "x = CR" | "x = LF" "b" | "x = LF" "\<not> b" | "x = NUL" "x \<noteq> CR" "x \<noteq> LF"
    | "x \<noteq> CR" "x \<noteq> LF" "x \<noteq> NUL"
    by blast
  then show ?case
  proof cases
    case 1
    then have dt: "dom_text b (x # xs) = LF # dom_text True xs" by (simp add: dom_text_Cons)
    from 1 have "build_from b Data (x # (xs @ c # rest)) ((t, a, kids) # fs) =
          build_from True Data (xs @ c # rest) ((t, a, append_char LF kids) # fs)"
      by (simp add: build_CR)
    then show ?thesis unfolding append_Cons dt add_text_Cons by (simp only: IH)
  next
    case 2
    then have dt: "dom_text b (x # xs) = dom_text False xs"
      by (simp add: dom_text_Cons) (simp add: char_tests)
    from 2 have "build_from b Data (x # (xs @ c # rest)) ((t, a, kids) # fs) =
          build_from False Data (xs @ c # rest) ((t, a, kids) # fs)"
      by (simp add: build_LF_skip)
    then show ?thesis unfolding append_Cons dt by (simp only: IH)
  next
    case 3
    then have dt: "dom_text b (x # xs) = LF # dom_text False xs"
      by (simp add: dom_text_Cons) (simp add: char_tests)
    from 3 have "build_from b Data (x # (xs @ c # rest)) ((t, a, kids) # fs) =
          build_from False Data (xs @ c # rest) ((t, a, append_char LF kids) # fs)"
      by (simp add: build_LF)
    then show ?thesis unfolding append_Cons dt add_text_Cons by (simp only: IH)
  next
    case 4
    then have dt: "dom_text b (x # xs) = dom_text False xs"
      by (simp add: dom_text_Cons)
    from 4 have "build_from b Data (x # (xs @ c # rest)) ((t, a, kids) # fs) =
          build_from False Data (xs @ c # rest) ((t, a, kids) # fs)"
      by (simp add: build_NUL)
    then show ?thesis unfolding append_Cons dt by (simp only: IH)
  next
    case 5
    then have dt: "dom_text b (x # xs) = x # dom_text False xs"
      by (simp add: dom_text_Cons)
    from 5 nosp have "build_from b Data (x # (xs @ c # rest)) ((t, a, kids) # fs) =
          build_from False Data (xs @ c # rest) ((t, a, append_char x kids) # fs)"
      by (simp add: build_char)
    then show ?thesis unfolding append_Cons dt add_text_Cons by (simp only: IH)
  qed
qed

subsection \<open>The tokenizer on the text of an attribute value\<close>

lemma attr_entity_amp:
  "build_from b (AttrValue (Some DQ) tg an av) (''&amp;'' @ rest) fs =
   build_from False (AttrValue (Some DQ) tg an (av @ [CHR ''&''])) rest fs"
  by (simp add: build_from_Cons char_tests)

lemma attr_entity_lt:
  "build_from b (AttrValue (Some DQ) tg an av) (''&lt;'' @ rest) fs =
   build_from False (AttrValue (Some DQ) tg an (av @ [CHR ''<''])) rest fs"
  by (simp add: build_from_Cons char_tests)

lemma attr_entity_gt:
  "build_from b (AttrValue (Some DQ) tg an av) (''&gt;'' @ rest) fs =
   build_from False (AttrValue (Some DQ) tg an (av @ [CHR ''>''])) rest fs"
  by (simp add: build_from_Cons char_tests)

lemma attr_entity_quot:
  "build_from b (AttrValue (Some DQ) tg an av) (''&quot;'' @ rest) fs =
   build_from False (AttrValue (Some DQ) tg an (av @ [DQ])) rest fs"
  by (simp add: build_from_Cons char_tests)

lemma attr_entity_apos:
  "build_from b (AttrValue (Some DQ) tg an av) (''&#039;'' @ rest) fs =
   build_from False (AttrValue (Some DQ) tg an (av @ [CHR 0x27])) rest fs"
  by (simp add: build_from_Cons char_tests)

lemma attr_entity:
  assumes "re_special x"
  shows "build_from b (AttrValue (Some DQ) tg an av) (sanitize_char x @ rest) fs =
         build_from False (AttrValue (Some DQ) tg an (av @ [x])) rest fs"
proof -
  from assms consider "x = CHR ''&''" | "x = CHR ''<''" | "x = CHR ''>''" | "x = CHR 0x22" | "x = CHR 0x27"
    by (auto simp: re_special_def)
  then show ?thesis
  proof cases
    case 1 then show ?thesis using attr_entity_amp by (simp add: sanitize_char_def)
  next
    case 2 then show ?thesis using attr_entity_lt by (simp add: sanitize_char_def)
  next
    case 3 then show ?thesis using attr_entity_gt by (simp add: sanitize_char_def)
  next
    case 4 then show ?thesis using attr_entity_quot by (simp add: sanitize_char_def)
  next
    case 5 then show ?thesis using attr_entity_apos by (simp add: sanitize_char_def)
  qed
qed

lemma attr_char:
  "x \<noteq> CHR ''&'' \<Longrightarrow> x \<noteq> DQ \<Longrightarrow> x \<noteq> CR \<Longrightarrow> x \<noteq> LF \<Longrightarrow>
   build_from b (AttrValue (Some DQ) tg an av) (x # rest) fs =
   build_from False (AttrValue (Some DQ) tg an (av @ value_chars x)) rest fs"
  by (simp add: build_from_Cons attr_value_step_def)

lemma attr_CR:
  "build_from b (AttrValue (Some DQ) tg an av) (CR # rest) fs =
   build_from True (AttrValue (Some DQ) tg an (av @ [LF])) rest fs"
  by (simp add: build_from_Cons attr_value_step_def value_chars_def) (simp add: char_tests)

lemma attr_LF_skip:
  "build_from True (AttrValue (Some DQ) tg an av) (LF # rest) fs =
   build_from False (AttrValue (Some DQ) tg an av) rest fs"
  by (simp add: build_from_Cons) (simp add: char_tests)

lemma attr_LF:
  "build_from False (AttrValue (Some DQ) tg an av) (LF # rest) fs =
   build_from False (AttrValue (Some DQ) tg an (av @ [LF])) rest fs"
  by (simp add: build_from_Cons attr_value_step_def value_chars_def) (simp add: char_tests)

lemma normalize_newlines_Cons:
  "normalize_newlines b (x # xs) =
     (if x = CR then LF # normalize_newlines True xs
      else if x = LF \<and> b then normalize_newlines False xs
      else x # normalize_newlines False xs)"
  by simp

lemma attr_text_Nil [simp]: "attr_text b [] = []"
  by (simp add: attr_text_def)

lemma attr_text_Cons:
  "attr_text b (x # xs) =
     (if x = CR then LF # attr_text True xs
      else if x = LF \<and> b then attr_text False xs
      else value_chars x @ attr_text False xs)"
  by (simp add: attr_text_def value_chars_def) (simp add: char_tests)

lemma value_chars_special: "re_special x \<Longrightarrow> value_chars x = [x]"
  by (auto simp: re_special_def value_chars_def NUL_def)

lemma build_escaped_attr:
  "build_from b (AttrValue (Some DQ) tg an av) (String_replace re_special replacer s @ DQ # rest) fs =
   build_from False (AttrValue (Some DQ) tg an (av @ attr_text b s)) (DQ # rest) fs"
proof (induction s arbitrary: b av)
  case Nil
  have "DQ \<noteq> LF" by (simp add: char_tests)
  then have "build_from b (AttrValue (Some DQ) tg an av) (DQ # rest) fs =
             build_from False (AttrValue (Some DQ) tg an av) (DQ # rest) fs"
    by (rule build_from_flag)
  then show ?case by simp
next
  case (Cons x xs)
  note IH = Cons.IH
  show ?case
  proof (cases "re_special x")
    case True
    then have "x \<noteq> CR" "x \<noteq> LF" by (auto simp: re_special_def char_tests)
    then have nn: "attr_text b (x # xs) = x # attr_text False xs"
      by (simp add: attr_text_Cons value_chars_special [OF True])
    have "build_from b (AttrValue (Some DQ) tg an av) (String_replace re_special replacer (x # xs) @ DQ # rest) fs =
          build_from b (AttrValue (Some DQ) tg an av) (sanitize_char x @ (String_replace re_special replacer xs @ DQ # rest)) fs"
      unfolding escaped_Cons by simp
    also have "\<dots> = build_from False (AttrValue (Some DQ) tg an (av @ [x])) (String_replace re_special replacer xs @ DQ # rest) fs"
      using True by (rule attr_entity)
    also have "\<dots> = build_from False (AttrValue (Some DQ) tg an ((av @ [x]) @ attr_text False xs)) (DQ # rest) fs"
      by (rule IH)
    finally show ?thesis unfolding nn by simp
  next
    case False
    then have esc: "String_replace re_special replacer (x # xs) @ DQ # rest =
         x # (String_replace re_special replacer xs @ DQ # rest)"
      by simp
    from False have nosp: "x \<noteq> CHR ''&''" "x \<noteq> DQ" by (auto simp: re_special_def)
    consider "x = CR" | "x = LF" "b" | "x = LF" "\<not> b" | "x \<noteq> CR" "x \<noteq> LF"
      by blast
    then show ?thesis
    proof cases
      case 1
      then have nn: "attr_text b (x # xs) = LF # attr_text True xs" by (simp add: attr_text_Cons)
      from 1 have "build_from b (AttrValue (Some DQ) tg an av) (x # (String_replace re_special replacer xs @ DQ # rest)) fs =
            build_from True (AttrValue (Some DQ) tg an (av @ [LF])) (String_replace re_special replacer xs @ DQ # rest) fs"
        by (simp add: attr_CR)
      then show ?thesis unfolding esc nn by (simp only: IH append_assoc append_Cons append_Nil)
    next
      case 2
      then have nn: "attr_text b (x # xs) = attr_text False xs"
        by (simp add: attr_text_Cons) (simp add: char_tests)
      from 2 have "build_from b (AttrValue (Some DQ) tg an av) (x # (String_replace re_special replacer xs @ DQ # rest)) fs =
            build_from False (AttrValue (Some DQ) tg an av) (String_replace re_special replacer xs @ DQ # rest) fs"
        by (simp add: attr_LF_skip)
      then show ?thesis unfolding esc nn by (simp only: IH)
    next
      case 3
      then have nn: "attr_text b (x # xs) = LF # attr_text False xs"
        by (simp add: attr_text_Cons value_chars_def) (simp add: char_tests)
      from 3 have "build_from b (AttrValue (Some DQ) tg an av) (x # (String_replace re_special replacer xs @ DQ # rest)) fs =
            build_from False (AttrValue (Some DQ) tg an (av @ [LF])) (String_replace re_special replacer xs @ DQ # rest) fs"
        by (simp add: attr_LF)
      then show ?thesis unfolding esc nn by (simp only: IH append_assoc append_Cons append_Nil)
    next
      case 4
      then have nn: "attr_text b (x # xs) = value_chars x @ attr_text False xs"
        by (simp add: attr_text_Cons)
      from 4 nosp have "build_from b (AttrValue (Some DQ) tg an av) (x # (String_replace re_special replacer xs @ DQ # rest)) fs =
            build_from False (AttrValue (Some DQ) tg an (av @ value_chars x)) (String_replace re_special replacer xs @ DQ # rest) fs"
        by (simp add: attr_char)
      then show ?thesis unfolding esc nn by (simp only: IH append_assoc)
    qed
  qed
qed

subsection \<open>The elements of a tree\<close>

lemma nodes_of_Nil [simp]: "nodes_of [] = []"
  by (simp add: nodes_of_def)

lemma nodes_of_Cons [simp]: "nodes_of (n # ns) = n # descendants n @ nodes_of ns"
  by (simp add: nodes_of_def)

lemma nodes_of_append [simp]: "nodes_of (xs @ ys) = nodes_of xs @ nodes_of ys"
  by (simp add: nodes_of_def)

lemma descendants_Element: "descendants (Element t a d kids) = nodes_of kids"
  by (simp add: nodes_of_def)

lemma has_class_Text [simp]: "has_class c (Text s) = False"
  by (simp add: has_class_def)

lemma class_append_char:
  "filter (has_class c) (nodes_of (append_char ch kids)) = filter (has_class c) (nodes_of kids)"
  by (induction ch kids rule: append_char.induct) simp_all

lemma class_add_text [simp]:
  "filter (has_class c) (nodes_of (add_text s kids)) = filter (has_class c) (nodes_of kids)"
  by (induction s arbitrary: kids) (simp_all add: add_text_Cons class_append_char)

lemma text_append_char:
  "concat (map textContent (append_char ch kids)) = concat (map textContent kids) @ [ch]"
  by (induction ch kids rule: append_char.induct) simp_all

lemma text_add_text [simp]:
  "concat (map textContent (add_text s kids)) = concat (map textContent kids) @ s"
  by (induction s arbitrary: kids) (simp_all add: add_text_Cons text_append_char)

subsection \<open>The pieces of the template\<close>

lemma escapeHtml_Inr: "escapeHtml v = Inr t \<Longrightarrow> \<exists>s. v = Str s \<and> t = String_replace re_special replacer s"
  by (cases v) simp_all

lemma map_tags_Inr:
  "map_tags ts = Inr spans \<Longrightarrow> \<exists>strs. ts = map Str strs \<and> spans = map span_markup strs"
proof (induction ts arbitrary: spans)
  case Nil
  then show ?case by simp
next
  case (Cons tag ts)
  from Cons.prems obtain t spans' where t: "escapeHtml tag = Inr t" and
    sp: "map_tags ts = Inr spans'" and
    eq: \<open>spans = (''<span class="tag">'' @ t @ ''</span>'') # spans'\<close>
    by (auto simp: and_then_def split: sum.splits)
  from escapeHtml_Inr [OF t] obtain s where s: "tag = Str s" "t = String_replace re_special replacer s"
    by blast
  from Cons.IH [OF sp] obtain strs where "ts = map Str strs" "spans' = map span_markup strs"
    by blast
  with s eq have "tag # ts = map Str (s # strs) \<and> spans = map span_markup (s # strs)"
    by (simp add: span_markup_def)
  then show ?case by (rule exI [where x = "s # strs"])
qed

lemma span_piece:
  "build_from False Data (span_markup s @ rest) ((t, a, kids) # fs) =
   build_from False Data rest ((t, a, kids @ [tag_span s]) # fs)"
  by (simp add: span_markup_def build_from_Cons char_tests build_escaped_text tag_span_def)

lemma spans_piece:
  "build_from False Data (concat (map span_markup strs) @ rest) ((t, a, kids) # fs) =
   build_from False Data rest ((t, a, kids @ map tag_span strs) # fs)"
proof (induction strs arbitrary: kids)
  case Nil
  show ?case by simp
next
  case (Cons s strs)
  have "build_from False Data (concat (map span_markup (s # strs)) @ rest) ((t, a, kids) # fs) =
     build_from False Data (span_markup s @ (concat (map span_markup strs) @ rest)) ((t, a, kids) # fs)"
    by simp
  also have "\<dots> = build_from False Data (concat (map span_markup strs) @ rest)
       ((t, a, kids @ [tag_span s]) # fs)"
    by (rule span_piece)
  also have "\<dots> = build_from False Data rest ((t, a, (kids @ [tag_span s]) @ map tag_span strs) # fs)"
    by (rule Cons.IH)
  finally show ?case by simp
qed

lemmas build_simps = build_from_Cons build_from_Nil char_tests insert_character_add_text add_text_append
  build_escaped_text build_escaped_attr build_plain_text spans_piece

lemma tags_block_piece:
  \<open>build_from False Data
     ((nl @ ''        <div class="post-tags">'' @ nl @
       ''          '' @ concat (map span_markup strs) @ nl @
       ''        </div>'' @ nl @
       ''      '') @ rest) ((t, a, kids) # fs) =
   build_from False Data rest
     ((t, a, add_text (nl @ ''      '')
               (add_text (nl @ ''        '') kids @
                [Element ''div'' [(''class'', ''post-tags'')] []
                   (add_text (nl @ ''        '')
                      (add_text (nl @ ''          '') [] @ map tag_span strs))])) # fs)\<close>
  by (simp add: build_simps del: insert_character.simps)

lemma A1:
  \<open>build_from False Data
     (nl @ ''      <div class="post-content">'' @ nl @
            ''        '' @ rest) ((t, a, kids) # fs) =
   build_from False Data rest
     ((''div'', [(''class'', ''post-content'')], add_text (nl @ ''        '') []) #
      (t, a, add_text (nl @ ''      '') kids) # fs)\<close>
  by (simp add: build_simps del: insert_character.simps)

lemma A2:
  \<open>build_from False Data
     (nl @ ''        <div class="post-text">'' @ nl @
            ''          <h2 class="post-title">'' @ String_replace re_special replacer title @ ''</h2>'' @ nl @
            ''          <p class="post-excerpt">'' @ String_replace re_special replacer excerpt @ ''</p>'' @ nl @
            ''          '' @ rest) ((t, a, kids) # fs) =
   build_from False Data rest
     ((''div'', [(''class'', ''post-text'')],
       add_text (nl @ ''          '')
        (add_text (nl @ ''          '')
          (add_text (nl @ ''          '') [] @
           [Element ''h2'' [(''class'', ''post-title'')] [] (add_text (dom_text False title) [])]) @
         [Element ''p'' [(''class'', ''post-excerpt'')] [] (add_text (dom_text False excerpt) [])])) #
      (t, a, add_text (nl @ ''        '') kids) # fs)\<close>
  by (simp add: build_simps del: insert_character.simps)

lemma A3:
  assumes d: "CHR ''<'' \<notin> set d" "CHR ''&'' \<notin> set d"
  shows \<open>build_from False Data
     (nl @ ''          <div class="post-meta">'' @ nl @
            ''            <span class="post-date">'' @ d @ ''</span>'' @ nl @
            ''            '' @ rest) ((t, a, kids) # fs) =
   build_from False Data rest
     ((''div'', [(''class'', ''post-meta'')],
       add_text (nl @ ''            '')
        (add_text (nl @ ''            '') [] @
         [Element ''span'' [(''class'', ''post-date'')] [] (add_text (dom_text False d) [])])) #
      (t, a, add_text (nl @ ''          '') kids) # fs)\<close>
  by (simp add: build_simps d del: insert_character.simps)

lemma A4:
  \<open>build_from False Data
     (nl @ ''          </div>'' @ nl @
            ''          <a href="'' @ String_replace re_special replacer href @ ''" class="post-link">Read More</a>'' @ nl @
            ''        </div>'' @ nl @
            ''      </div>'' @ nl @
            ''    '') ((''div'', a1, k1) # (''div'', a2, k2) # (''div'', a3, k3) # (t, a, kids) # fs) =
   (t, a,
     add_text (nl @ ''    '')
      (kids @
       [Element ''div'' a3 []
         (add_text (nl @ ''      '')
           (k3 @
            [Element ''div'' a2 []
              (add_text (nl @ ''        '')
                (add_text (nl @ ''          '')
                  (k2 @ [Element ''div'' a1 [] (add_text (nl @ ''          '') k1)]) @
                 [Element ''a'' [(''href'', attr_text False href), (''class'', ''post-link'')] []
                    (add_text ''Read More'' [])]))]))])) # fs\<close>
  by (simp add: build_simps del: insert_character.simps)

lemma has_class_one:
  "has_class c (Element t [(''class'', v)] d kids) = (c \<in> set (split_spaces [] v))"
  by (simp add: has_class_def)

lemma article_query:
  assumes I: "\<And>rest t a kids fs. build_from False Data (i @ rest) ((t, a, kids) # fs) =
                build_from False Data rest ((t, a, kids @ ins) # fs)"
    and T: "\<And>rest t a kids fs. build_from False Data (tg @ rest) ((t, a, kids) # fs) =
                build_from False Data rest ((t, a, tgf kids) # fs)"
    and A: "\<And>rest t a kids fs. build_from False Data (au @ rest) ((t, a, kids) # fs) =
                build_from False Data rest ((t, a, kids @ ans) # fs)"
    and d: "CHR ''<'' \<notin> set d" "CHR ''&'' \<notin> set d"
    and IQ: "filter (has_class c) (nodes_of ins) = []"
    and AQ: "filter (has_class c) (nodes_of ans) = []"
    and TQ: "\<And>kids. filter (has_class c) (nodes_of (tgf kids)) =
                filter (has_class c) (nodes_of kids) @ tq"
    and c: "c \<in> {''tag'', ''post-tags'', ''post-excerpt'', ''post-title''}"
  shows \<open>filter (has_class c) (nodes_of (parse_fragment (article_markup i title excerpt tg d au href))) =
       (if c = ''post-title''
        then [Element ''h2'' [(''class'', ''post-title'')] [] (add_text (dom_text False title) [])]
        else []) @
       (if c = ''post-excerpt''
        then [Element ''p'' [(''class'', ''post-excerpt'')] [] (add_text (dom_text False excerpt) [])]
        else []) @ tq\<close>
  unfolding parse_fragment_build article_markup_def
  apply (simp only: A1 I A2 T A3 [OF d] A A4)
  apply (simp only: finish.simps)
  using c IQ AQ TQ
  apply (elim insertE emptyE)
     apply (simp_all add: descendants_Element has_class_def is_space_def del: descendants.simps)
  done

lemma img_piece:
  \<open>build_from False Data (img_markup src alt @ rest) ((t, a, kids) # fs) =
   build_from False Data rest
     ((t, a, kids @ [Element ''img''
                       [(''src'', attr_text False src),
                        (''alt'', attr_text False alt),
                        (''class'', ''post-image'')] [] []]) # fs)\<close>
  by (simp add: img_markup_def build_simps del: insert_character.simps)

lemma imageHTML_cases:
  assumes "imageHTML post = Inr i"
  shows "i = [] \<or> (\<exists>src alt. i = img_markup src alt)"
proof (cases "get_prop post ''image''")
  case (Inl e)
  with assms show ?thesis by (simp add: imageHTML_def and_then_def)
next
  case (Inr img)
  show ?thesis
  proof (cases "truthy img")
    case False
    with Inr assms show ?thesis by (simp add: imageHTML_def and_then_def)
  next
    case True
    with Inr assms obtain s title a where s: "escapeHtml img = Inr s"
      and a: "escapeHtml title = Inr a"
      and i: \<open>i = ''<img src="'' @ s @ ''" alt="'' @ a @ ''" class="post-image">''\<close>
      by (auto simp: imageHTML_def and_then_def split: sum.splits)
    from escapeHtml_Inr [OF s] obtain src where "s = String_replace re_special replacer src" by blast
    moreover from escapeHtml_Inr [OF a] obtain alt where "a = String_replace re_special replacer alt" by blast
    ultimately have "i = img_markup src alt" unfolding i img_markup_def by simp
    then show ?thesis by blast
  qed
qed

lemma image_piece:
  assumes "imageHTML post = Inr i"
  shows "\<exists>ins. (\<forall>rest t a kids fs.
             build_from False Data (i @ rest) ((t, a, kids) # fs) =
             build_from False Data rest ((t, a, kids @ ins) # fs))
         \<and> (\<forall>c. c \<noteq> ''post-image'' \<longrightarrow> filter (has_class c) (nodes_of ins) = [])"
proof -
  from imageHTML_cases [OF assms] consider "i = []" | src alt where "i = img_markup src alt"
    by blast
  then show ?thesis
  proof cases
    case 1
    then have "(\<forall>rest t a kids fs.
             build_from False Data (i @ rest) ((t, a, kids) # fs) =
             build_from False Data rest ((t, a, kids @ []) # fs))
         \<and> (\<forall>c. c \<noteq> ''post-image'' \<longrightarrow> filter (has_class c) (nodes_of []) = [])"
      by simp
    then show ?thesis by (rule exI [where x = "[]"])
  next
    case 2
    let ?img = "Element ''img''
                       [(''src'', attr_text False src),
                        (''alt'', attr_text False alt),
                        (''class'', ''post-image'')] [] []"
    have cls: "has_class c ?img = (c = ''post-image'')" for c
      by (auto simp: has_class_def is_space_def)
    have "(\<forall>rest t a kids fs.
             build_from False Data (i @ rest) ((t, a, kids) # fs) =
             build_from False Data rest ((t, a, kids @ [?img]) # fs))
         \<and> (\<forall>c. c \<noteq> ''post-image'' \<longrightarrow> filter (has_class c) (nodes_of [?img]) = [])"
      unfolding 2 by (simp add: img_piece cls)
    then show ?thesis by (rule exI [where x = "[?img]"])
  qed
qed

lemma by_piece:
  \<open>build_from False Data (by_markup author @ rest) ((t, a, kids) # fs) =
   build_from False Data rest
     ((t, a, kids @ [Element ''span'' [(''class'', ''post-author'')] []
                       (add_text (''By '' @ dom_text False author) [])]) # fs)\<close>
  by (simp add: by_markup_def build_simps del: insert_character.simps)

lemma authorHTML_cases:
  assumes "authorHTML post = Inr au"
  shows "au = [] \<or> (\<exists>author. au = by_markup author)"
proof (cases "get_prop post ''author''")
  case (Inl e)
  with assms show ?thesis by (simp add: authorHTML_def and_then_def)
next
  case (Inr v)
  show ?thesis
  proof (cases "truthy v")
    case False
    with Inr assms show ?thesis by (simp add: authorHTML_def and_then_def)
  next
    case True
    with Inr assms obtain a where a: "escapeHtml v = Inr a"
      and au: \<open>au = ''<span class="post-author">By '' @ a @ ''</span>''\<close>
      by (auto simp: authorHTML_def and_then_def split: sum.splits)
    from escapeHtml_Inr [OF a] obtain author where "a = String_replace re_special replacer author" by blast
    then have "au = by_markup author" unfolding au by_markup_def by simp
    then show ?thesis by blast
  qed
qed

lemma author_piece:
  assumes "authorHTML post = Inr au"
  shows "\<exists>ans. (\<forall>rest t a kids fs.
             build_from False Data (au @ rest) ((t, a, kids) # fs) =
             build_from False Data rest ((t, a, kids @ ans) # fs))
         \<and> (\<forall>c. c \<noteq> ''post-author'' \<longrightarrow> filter (has_class c) (nodes_of ans) = [])"
proof -
  from authorHTML_cases [OF assms] consider "au = []" | author where "au = by_markup author"
    by blast
  then show ?thesis
  proof cases
    case 1
    then have "(\<forall>rest t a kids fs.
             build_from False Data (au @ rest) ((t, a, kids) # fs) =
             build_from False Data rest ((t, a, kids @ []) # fs))
         \<and> (\<forall>c. c \<noteq> ''post-author'' \<longrightarrow> filter (has_class c) (nodes_of []) = [])"
      by simp
    then show ?thesis by (rule exI [where x = "[]"])
  next
    case 2
    let ?by = "Element ''span'' [(''class'', ''post-author'')] []
                       (add_text (''By '' @ dom_text False author) [])"
    have cls: "has_class c (Element ''span'' [(''class'', ''post-author'')] dd ks) = (c = ''post-author'')"
      for c dd ks
      by (auto simp: has_class_def is_space_def)
    have "(\<forall>rest t a kids fs.
             build_from False Data (au @ rest) ((t, a, kids) # fs) =
             build_from False Data rest ((t, a, kids @ [?by]) # fs))
         \<and> (\<forall>c. c \<noteq> ''post-author'' \<longrightarrow> filter (has_class c) (nodes_of [?by]) = [])"
      unfolding 2 by (simp add: by_piece cls descendants_Element del: descendants.simps)
    then show ?thesis by (rule exI [where x = "[?by]"])
  qed
qed

lemma new_Date_Inl: "new_Date P v = Inl e \<Longrightarrow> ToString P v = Inl e"
  by (cases v) (auto split: sum.splits if_splits)

lemma date_text_plain:
  assumes "plain_dates P" and "ToString P (formatDate P v) = Inr d"
  shows "CHR ''<'' \<notin> set d" and "CHR ''&'' \<notin> set d"
proof -
  have "CHR ''<'' \<notin> set d \<and> CHR ''&'' \<notin> set d"
  proof (cases "truthy v")
    case False
    with assms(2) show ?thesis by (simp add: formatDate_def)
  next
    case True
    show ?thesis
    proof (cases "new_Date P v")
      case (Inl e)
      with True have "formatDate P v = v" by (simp add: formatDate_def)
      with assms(2) new_Date_Inl [OF Inl] show ?thesis by simp
    next
      case (Inr date)
      with True assms(2) have "d = toLocaleDateString P date" by (simp add: formatDate_def)
      with assms(1) show ?thesis
        by (cases date) (simp_all add: toLocaleDateString_def plain_dates_def)
    qed
  qed
  then show "CHR ''<'' \<notin> set d" and "CHR ''&'' \<notin> set d" by simp_all
qed

lemma tags_span_nodes:
  "filter (has_class c) (nodes_of (map tag_span strs)) = filter (has_class c) (map tag_span strs)"
  by (induction strs) (simp_all add: tag_span_def descendants_Element del: descendants.simps)

lemma has_class_tag_span: "has_class c (tag_span s) = (c = ''tag'')"
  by (auto simp: tag_span_def has_class_def is_space_def)

lemma textContent_tag_span: "textContent (tag_span s) = dom_text False s"
  by (simp add: tag_span_def)

lemma tagsHTML_cases:
  assumes "tagsHTML post = Inr tg"
  shows "(\<exists>ts strs. get_prop post ''tags'' = Inr (Arr ts) \<and> ts = map Str strs \<and> tg = tags_block strs)
       \<or> ((\<forall>ts. get_prop post ''tags'' \<noteq> Inr (Arr ts)) \<and> tg = [])"
proof (cases "get_prop post ''tags''")
  case (Inl e)
  with assms show ?thesis by (simp add: tagsHTML_def and_then_def)
next
  case (Inr v)
  show ?thesis
  proof (cases v)
    case (Arr ts)
    with Inr assms obtain spans where sp: "map_tags ts = Inr spans" and
      tg: \<open>tg = nl @ ''        <div class="post-tags">'' @ nl @
                ''          '' @ concat spans @ nl @
                ''        </div>'' @ nl @
                ''      ''\<close>
      by (auto simp: tagsHTML_def and_then_def split: sum.splits)
    from map_tags_Inr [OF sp] obtain strs where "ts = map Str strs" "spans = map span_markup strs"
      by blast
    then have "tg = tags_block strs" unfolding tg tags_block_def by simp
    with Inr Arr \<open>ts = map Str strs\<close> show ?thesis by blast
  qed (use Inr assms in \<open>simp_all add: tagsHTML_def and_then_def\<close>)
qed

subsection \<open>The rendered record\<close>

lemma articleHTML_Inr:
  assumes "articleHTML P post i tg = Inr html"
  shows "\<exists>title e dsc excerpt date d au href.
           get_prop post ''excerpt'' = Inr e \<and> get_prop post ''description'' = Inr dsc
         \<and> js_or (js_or e dsc) (Str []) = Str excerpt
         \<and> get_prop post ''date'' = Inr date \<and> ToString P (formatDate P date) = Inr d
         \<and> authorHTML post = Inr au
         \<and> html = article_markup i title excerpt tg d au href"
proof -
  from assms obtain tv title_text e dsc excerpt_text date d au url href_text where
    t: "escapeHtml tv = Inr title_text" and
    e: "get_prop post ''excerpt'' = Inr e" "get_prop post ''description'' = Inr dsc" and
    x: "escapeHtml (js_or (js_or e dsc) (Str [])) = Inr excerpt_text" and
    d: "get_prop post ''date'' = Inr date" "ToString P (formatDate P date) = Inr d" and
    au: "authorHTML post = Inr au" and
    h: "escapeHtml (js_or url (Str ''#'')) = Inr href_text" and
    html: \<open>html = nl @ ''      <div class="post-content">'' @ nl @
            ''        '' @ i @ nl @
            ''        <div class="post-text">'' @ nl @
            ''          <h2 class="post-title">'' @ title_text @ ''</h2>'' @ nl @
            ''          <p class="post-excerpt">'' @ excerpt_text @ ''</p>'' @ nl @
            ''          '' @ tg @ nl @
            ''          <div class="post-meta">'' @ nl @
            ''            <span class="post-date">'' @ d @ ''</span>'' @ nl @
            ''            '' @ au @ nl @
            ''          </div>'' @ nl @
            ''          <a href="'' @ href_text @ ''" class="post-link">Read More</a>'' @ nl @
            ''        </div>'' @ nl @
            ''      </div>'' @ nl @
            ''    ''\<close>
    unfolding articleHTML_def and_then_def by (simp split: sum.splits)
  from escapeHtml_Inr [OF t] obtain title where title: "title_text = String_replace re_special replacer title"
    by blast
  from escapeHtml_Inr [OF x] obtain excerpt where excerpt: "js_or (js_or e dsc) (Str []) = Str excerpt"
    "excerpt_text = String_replace re_special replacer excerpt"
    by blast
  from escapeHtml_Inr [OF h] obtain href where href: "href_text = String_replace re_special replacer href"
    by blast
  have "html = article_markup i title excerpt tg d au href"
    unfolding html article_markup_def title excerpt href ..
  with e excerpt(1) d au show ?thesis by blast
qed

lemma createPostElement_Inr:
  assumes "createPostElement P post = Inr el"
  shows "\<exists>data_id i tg html. imageHTML post = Inr i \<and> tagsHTML post = Inr tg
           \<and> articleHTML P post i tg = Inr html
           \<and> el = Element ''article'' [(''class'', ''post''), (''data-id'', data_id)] [] (parse_fragment html)"
  using assms unfolding createPostElement_def and_then_def
  by (auto split: sum.splits)

lemma tags_block_query:
  "filter (has_class ''tag'')
     (nodes_of (add_text w4
               (add_text w1 kids @
                [Element ''div'' [(''class'', ''post-tags'')] []
                   (add_text w3 (add_text w2 [] @ map tag_span strs))]))) =
   filter (has_class ''tag'') (nodes_of kids) @ map tag_span strs"
  "filter (has_class ''post-tags'')
     (nodes_of (add_text w4
               (add_text w1 kids @
                [Element ''div'' [(''class'', ''post-tags'')] []
                   (add_text w3 (add_text w2 [] @ map tag_span strs))]))) =
   filter (has_class ''post-tags'') (nodes_of kids) @
     [Element ''div'' [(''class'', ''post-tags'')] []
                   (add_text w3 (add_text w2 [] @ map tag_span strs))]"
  "filter (has_class ''post-excerpt'')
     (nodes_of (add_text w4
               (add_text w1 kids @
                [Element ''div'' [(''class'', ''post-tags'')] []
                   (add_text w3 (add_text w2 [] @ map tag_span strs))]))) =
   filter (has_class ''post-excerpt'') (nodes_of kids) @ []"
  by (simp_all add: descendants_Element tags_span_nodes has_class_tag_span has_class_one is_space_def
      del: descendants.simps)

lemma querySelectorAll_article:
  "querySelectorAll c (Element t a d kids) = filter (has_class c) (nodes_of kids)"
  by (simp add: querySelectorAll_def descendants_Element del: descendants.simps)



subsection \<open>The reference host writes plain dates\<close>

lemma digit_char_plain:
  "k < 10 \<Longrightarrow> digit_char k \<noteq> CHR ''<'' \<and> digit_char k \<noteq> CHR ''&''"
proof -
  have "\<forall>k \<in> set [0..<10]. digit_char k \<noteq> CHR ''<'' \<and> digit_char k \<noteq> CHR ''&''"
    by code_simp
  moreover assume "k < 10"
  ultimately show ?thesis by simp
qed

lemma show_nat_plain: "CHR ''<'' \<notin> set (show_nat n) \<and> CHR ''&'' \<notin> set (show_nat n)"
proof (induction n rule: show_nat.induct)
  case (1 n)
  show ?case
  proof (cases "n < 10")
    case True
    with digit_char_plain [of n] show ?thesis by (subst (1 2) show_nat.simps) auto
  next
    case False
    moreover have "n mod 10 < 10" by simp
    ultimately show ?thesis
      using 1 digit_char_plain [of "n mod 10"] by (subst (1 2) show_nat.simps) auto
  qed
qed

lemma show_int_plain: "CHR ''<'' \<notin> set (show_int i) \<and> CHR ''&'' \<notin> set (show_int i)"
  by (simp add: show_int_def show_nat_plain)

lemma month_name_plain: "CHR ''<'' \<notin> set (month_name m) \<and> CHR ''&'' \<notin> set (month_name m)"
proof (cases "1 \<le> m \<and> m \<le> 12")
  case True
  let ?months = "[''January'', ''February'', ''March'', ''April'', ''May'', ''June'', ''July'',
            ''August'', ''September'', ''October'', ''November'', ''December'']"
  from True have "nat (m - 1) < 12" by arith
  then have "nat (m - 1) < length ?months" by simp
  then have "?months ! nat (m - 1) \<in> set ?months" by (rule nth_mem)
  moreover have "\<forall>s \<in> set ?months. CHR ''<'' \<notin> set s \<and> CHR ''&'' \<notin> set s" by simp
  ultimately have plain: "CHR ''<'' \<notin> set (?months ! nat (m - 1)) \<and> CHR ''&'' \<notin> set (?months ! nat (m - 1))"
    by blast
  from True have eq: "month_name m = ?months ! nat (m - 1)" by (simp add: month_name_def)
  show ?thesis unfolding eq by (rule plain)
next
  case False
  then have "month_name m = []" unfolding month_name_def by (rule if_not_P)
  then show ?thesis by simp
qed

lemma plain_dates_host: "plain_dates (host tz)"
  by (simp add: plain_dates_def host_def en_US_long_def show_int_plain month_name_plain
      split: prod.splits)




end
